theory Spec2Isabelle
  imports Main
begin

section \<open>JSON values as the program sees them\<close>

text \<open>
  The program works on the values that \<^verbatim>\<open>JSON.parse\<close> returns. A string is the list of
  its UTF-16 code units, as JavaScript indexes, measures and compares it; \<open>str\<close> writes
  an ASCII literal. A number is an IEEE 754 double. A finite one is written as the
  shortest decimal that reads back as that double, which is how JavaScript prints it:
  \<open>Number neg ds e\<close> is \<open>0.d\<^sub>1d\<^sub>2\<dots>d\<^sub>k * 10 ^ e\<close>, negated when \<open>neg\<close>, with the digits \<open>ds\<close>
  free of leading and trailing zeros (none at all for zero, whose sign no operation of
  the program can see). \<open>Infinity\<close> is what a literal too large for a double is read as, and
  \<open>NaN\<close> is met only as a constant of the standard library. The program never computes
  with numbers: it hands them on and prints them.

  An object is the list of its own properties in the order in which
  \<^verbatim>\<open>Object.keys\<close>, a \<^verbatim>\<open>for\<close> loop over the keys, the spread \<^verbatim>\<open>{...o}\<close> and
  \<^verbatim>\<open>JSON.stringify\<close> see them: first the keys that are array indices, in ascending
  numeric order, then every other key in the order of its creation.
\<close>

type_synonym jsstring = "nat list"

definition str :: "string \<Rightarrow> jsstring" where
  "str s = map of_char s"

datatype number = Number bool "nat list" int | Infinity bool | NaN

datatype json =
    JNull
  | JBool bool
  | JNum number
  | JStr jsstring
  | JArr "json list"
  | JObj "(jsstring \<times> json) list"

type_synonym properties = "(jsstring \<times> json) list"

text \<open>\<^verbatim>\<open>value !== null && typeof value === 'object'\<close>\<close>

fun is_object :: "json \<Rightarrow> bool" where
  "is_object (JArr xs) = True"
| "is_object (JObj ps) = True"
| "is_object v = False"

definition own_keys :: "properties \<Rightarrow> jsstring list" where
  "own_keys ps = map fst ps"

text \<open>\<^verbatim>\<open>Object.prototype.hasOwnProperty.call(record, key)\<close> and \<^verbatim>\<open>record[key]\<close> for an own key.\<close>

definition has_own :: "properties \<Rightarrow> jsstring \<Rightarrow> bool" where
  "has_own ps k = (k \<in> set (own_keys ps))"

definition get_own :: "properties \<Rightarrow> jsstring \<Rightarrow> json option" where
  "get_own ps k = map_of ps k"

subsection \<open>Array indices and the order of own properties\<close>

definition is_digit :: "nat \<Rightarrow> bool" where
  "is_digit c = (48 \<le> c \<and> c \<le> 57)"

definition digit_value :: "nat \<Rightarrow> nat" where
  "digit_value c = c - 48"

definition decimal_value :: "jsstring \<Rightarrow> nat" where
  "decimal_value s = foldl (\<lambda>n c. 10 * n + digit_value c) 0 s"

text \<open>
  A property key is an array index when it is the canonical decimal form (no sign, no
  leading zero) of an integer from 0 to \<open>2^32 - 2\<close>.
\<close>

definition array_index :: "jsstring \<Rightarrow> nat option" where
  "array_index k =
     (if k = [] \<or> \<not> list_all is_digit k then None
      else if hd k = 48 \<and> tl k \<noteq> [] then None
      else if decimal_value k \<le> 4294967294 then Some (decimal_value k)
      else None)"

fun update_own :: "properties \<Rightarrow> jsstring \<Rightarrow> json \<Rightarrow> properties" where
  "update_own [] k v = []"
| "update_own ((k', v') # ps) k v =
     (if k' = k then (k, v) # ps else (k', v') # update_own ps k v)"

fun insert_index :: "nat \<Rightarrow> jsstring \<Rightarrow> json \<Rightarrow> properties \<Rightarrow> properties" where
  "insert_index i k v [] = [(k, v)]"
| "insert_index i k v ((k', v') # ps) =
     (case array_index k' of
        Some j \<Rightarrow> if j < i then (k', v') # insert_index i k v ps else (k, v) # (k', v') # ps
      | None \<Rightarrow> (k, v) # (k', v') # ps)"

text \<open>
  Creating or overwriting an own data property: an existing key keeps its place and takes
  the new value; a new array index goes among the array indices, in ascending order; any
  other new key goes last.
\<close>

definition define_property :: "properties \<Rightarrow> jsstring \<Rightarrow> json \<Rightarrow> properties" where
  "define_property ps k v =
     (if has_own ps k then update_own ps k v
      else case array_index k of
             Some i \<Rightarrow> insert_index i k v ps
           | None \<Rightarrow> ps @ [(k, v)])"

subsection \<open>Objects under construction: assignment and spread\<close>

text \<open>
  The functions build their results in fresh objects, by assignment \<^verbatim>\<open>o[key] = value\<close>.
  An assignment walks the prototype chain first. A fresh \<^verbatim>\<open>{}\<close> inherits from
  \<^verbatim>\<open>Object.prototype\<close>, whose only accessor property is \<^verbatim>\<open>__proto__\<close>: assigning to that
  key runs the inherited setter, which replaces the prototype when the value is an object
  or \<^verbatim>\<open>null\<close>, does nothing for any other value, and in no case creates an own property.
  Every other key, and \<^verbatim>\<open>__proto__\<close> once no setter is inherited any more, becomes an own
  data property.
\<close>

datatype prototype = ObjectPrototype | NullPrototype | ValuePrototype json

record jsobject =
  properties :: properties
  prototype :: prototype

definition empty_object :: jsobject where
  "empty_object = \<lparr>properties = [], prototype = ObjectPrototype\<rparr>"

text \<open>Does a lookup of \<^verbatim>\<open>__proto__\<close> that starts at this prototype end at the inherited setter?\<close>

fun inherits_setter :: "prototype \<Rightarrow> bool" where
  "inherits_setter ObjectPrototype = True"
| "inherits_setter NullPrototype = False"
| "inherits_setter (ValuePrototype (JObj ps)) = (\<not> has_own ps (str ''__proto__''))"
| "inherits_setter (ValuePrototype v) = True"

fun set_prototype :: "jsobject \<Rightarrow> json \<Rightarrow> jsobject" where
  "set_prototype obj JNull = obj\<lparr>prototype := NullPrototype\<rparr>"
| "set_prototype obj (JArr xs) = obj\<lparr>prototype := ValuePrototype (JArr xs)\<rparr>"
| "set_prototype obj (JObj ps) = obj\<lparr>prototype := ValuePrototype (JObj ps)\<rparr>"
| "set_prototype obj v = obj"

definition assign :: "jsobject \<Rightarrow> jsstring \<Rightarrow> json \<Rightarrow> jsobject" where
  "assign obj k v =
     (if k = (str ''__proto__'') \<and> \<not> has_own (properties obj) k \<and> inherits_setter (prototype obj)
      then set_prototype obj v
      else obj\<lparr>properties := define_property (properties obj) k v\<rparr>)"

text \<open>
  \<^verbatim>\<open>{ ...a, ...b }\<close>: a fresh object that receives the own properties of \<open>a\<close>, then those of
  \<open>b\<close>, each as an own data property (no setter runs).
\<close>

definition spread :: "properties \<Rightarrow> properties \<Rightarrow> properties" where
  "spread a b = foldl (\<lambda>ps kv. define_property ps (fst kv) (snd kv)) [] (a @ b)"

section \<open>The string functions of the standard library\<close>

text \<open>
  The program calls \<^verbatim>\<open>trim\<close>, \<^verbatim>\<open>trimStart\<close>, \<^verbatim>\<open>split('.')\<close>, \<^verbatim>\<open>decodeURIComponent\<close> and
  \<^verbatim>\<open>JSON.parse\<close>. They are modelled after ECMAScript, on strings as lists of UTF-16 code
  units. A function that throws returns \<open>None\<close>.
\<close>

subsection \<open>\<^verbatim>\<open>trim\<close>, \<^verbatim>\<open>trimStart\<close> and \<^verbatim>\<open>split\<close>\<close>

text \<open>The code units of ECMAScript's WhiteSpace and LineTerminator.\<close>

definition is_whitespace :: "nat \<Rightarrow> bool" where
  "is_whitespace c =
     (c \<in> {9, 10, 11, 12, 13, 32, 160, 5760, 8232, 8233, 8239, 8287, 12288, 65279}
      \<or> (8192 \<le> c \<and> c \<le> 8202))"

definition trimStart :: "jsstring \<Rightarrow> jsstring" where
  "trimStart s = dropWhile is_whitespace s"

definition trim :: "jsstring \<Rightarrow> jsstring" where
  "trim s = rev (dropWhile is_whitespace (rev (dropWhile is_whitespace s)))"

text \<open>\<^verbatim>\<open>key.split('.')\<close>: the segments between the dots; never empty.\<close>

fun split_dot :: "jsstring \<Rightarrow> jsstring list" where
  "split_dot [] = [[]]"
| "split_dot (c # s) =
     (if c = 46 then [] # split_dot s
      else (c # hd (split_dot s)) # tl (split_dot s))"

subsection \<open>\<^verbatim>\<open>decodeURIComponent\<close>\<close>

definition hex_value :: "nat \<Rightarrow> nat option" where
  "hex_value c =
     (if 48 \<le> c \<and> c \<le> 57 then Some (c - 48)
      else if 65 \<le> c \<and> c \<le> 70 then Some (c - 55)
      else if 97 \<le> c \<and> c \<le> 102 then Some (c - 87)
      else None)"

text \<open>The octet that the two code units after a \<^verbatim>\<open>%\<close> write.\<close>

fun hex_octet :: "jsstring \<Rightarrow> nat option" where
  "hex_octet (a # b # s) =
     (case hex_value a of
        None \<Rightarrow> None
      | Some x \<Rightarrow> (case hex_value b of None \<Rightarrow> None | Some y \<Rightarrow> Some (16 * x + y)))"
| "hex_octet s = None"

text \<open>The octets of \<open>n\<close> escapes \<^verbatim>\<open>%XX\<close> at the front of a string.\<close>

fun escaped_octets :: "nat \<Rightarrow> jsstring \<Rightarrow> nat list option" where
  "escaped_octets 0 s = Some []"
| "escaped_octets (Suc n) [] = None"
| "escaped_octets (Suc n) (c # s) =
     (if c \<noteq> 37 then None
      else case hex_octet s of
             None \<Rightarrow> None
           | Some b \<Rightarrow> map_option (Cons b) (escaped_octets n (drop 2 s)))"

text \<open>The number of leading 1 bits of an octet, up to 5.\<close>

definition leading_ones :: "nat \<Rightarrow> nat" where
  "leading_ones b =
     (if b < 128 then 0 else if b < 192 then 1 else if b < 224 then 2
      else if b < 240 then 3 else if b < 248 then 4 else 5)"

definition continuation :: "nat \<Rightarrow> bool" where
  "continuation b = (128 \<le> b \<and> b \<le> 191)"

text \<open>The code point that a well-formed UTF-8 sequence of two to four octets encodes.\<close>

fun utf8_code_point :: "nat list \<Rightarrow> nat option" where
  "utf8_code_point [a, b] =
     (if 194 \<le> a \<and> a \<le> 223 \<and> continuation b
      then Some ((a - 192) * 64 + (b - 128)) else None)"
| "utf8_code_point [a, b, c] =
     (if continuation c \<and>
         ((a = 224 \<and> 160 \<le> b \<and> b \<le> 191) \<or> (225 \<le> a \<and> a \<le> 236 \<and> continuation b) \<or>
          (a = 237 \<and> 128 \<le> b \<and> b \<le> 159) \<or> (238 \<le> a \<and> a \<le> 239 \<and> continuation b))
      then Some ((a - 224) * 4096 + (b - 128) * 64 + (c - 128)) else None)"
| "utf8_code_point [a, b, c, d] =
     (if continuation c \<and> continuation d \<and>
         ((a = 240 \<and> 144 \<le> b \<and> b \<le> 191) \<or> (241 \<le> a \<and> a \<le> 243 \<and> continuation b) \<or>
          (a = 244 \<and> 128 \<le> b \<and> b \<le> 143))
      then Some ((a - 240) * 262144 + (b - 128) * 4096 + (c - 128) * 64 + (d - 128))
      else None)"
| "utf8_code_point bs = None"

definition utf16 :: "nat \<Rightarrow> jsstring" where
  "utf16 cp =
     (if cp < 65536 then [cp]
      else [55296 + (cp - 65536) div 1024, 56320 + (cp - 65536) mod 1024])"

text \<open>
  \<^verbatim>\<open>decodeURIComponent\<close>: every escape \<^verbatim>\<open>%XX\<close> below 128 is replaced by that code unit,
  every run of escapes that is a well-formed UTF-8 sequence by its code point; any other
  \<^verbatim>\<open>%\<close> makes the call throw a URIError (\<open>None\<close>).
\<close>

fun decodeURIComponent :: "jsstring \<Rightarrow> jsstring option" where
  "decodeURIComponent [] = Some []"
| "decodeURIComponent (c # s) =
     (if c \<noteq> 37 then map_option (Cons c) (decodeURIComponent s)
      else case hex_octet s of
             None \<Rightarrow> None
           | Some b \<Rightarrow>
               if leading_ones b = 0 then map_option (Cons b) (decodeURIComponent (drop 2 s))
               else if leading_ones b = 1 \<or> 4 < leading_ones b then None
               else case escaped_octets (leading_ones b - 1) (drop 2 s) of
                      None \<Rightarrow> None
                    | Some bs \<Rightarrow>
                        (case utf8_code_point (b # bs) of
                           None \<Rightarrow> None
                         | Some cp \<Rightarrow>
                             map_option (\<lambda>r. utf16 cp @ r)
                               (decodeURIComponent (drop (2 + 3 * (leading_ones b - 1)) s))))"

subsection \<open>Number literals and their doubles\<close>

text \<open>The decimal digits of a natural number, as code units.\<close>

fun decimal :: "nat \<Rightarrow> jsstring" where
  "decimal n = (if n < 10 then [48 + n] else decimal (n div 10) @ [48 + n mod 10])"

declare decimal.simps [simp del]

text \<open>
  The number \<open>0.ds * 10 ^ e\<close>, negated when \<open>neg\<close>, in normal form. Zero has no sign:
  \<^verbatim>\<open>-0\<close> prints as \<^verbatim>\<open>0\<close>.
\<close>

definition make_number :: "bool \<Rightarrow> nat list \<Rightarrow> int \<Rightarrow> number" where
  "make_number neg ds e =
     (let z = length (takeWhile (\<lambda>d. d = 0) ds);
          ds' = rev (dropWhile (\<lambda>d. d = 0) (rev (drop z ds)))
      in if ds' = [] then Number False [] 0 else Number neg ds' (e - int z))"

text \<open>
  \<^verbatim>\<open>JSON.parse\<close> turns a literal into the double nearest to its exact value, a tie going
  to the even significand, a value too large to \<^verbatim>\<open>Infinity\<close> and one too small to zero.
  The exact value is a fraction \<open>(a, b)\<close> of natural numbers, \<open>a / b\<close>, and
  \<open>scale r q e\<close> is \<open>q / r ^ e\<close>.
\<close>

definition scale :: "nat \<Rightarrow> nat \<times> nat \<Rightarrow> int \<Rightarrow> nat \<times> nat" where
  "scale r q e = (if 0 \<le> e then (fst q, snd q * r ^ nat e) else (fst q * r ^ nat (- e), snd q))"

definition round_half_even :: "nat \<times> nat \<Rightarrow> nat" where
  "round_half_even q =
     (let n = fst q div snd q; r = fst q mod snd q
      in if 2 * r < snd q then n
         else if snd q < 2 * r then n + 1
         else if even n then n else n + 1)"

fun bit_length :: "nat \<Rightarrow> nat" where
  "bit_length n = (if n = 0 then 0 else Suc (bit_length (n div 2)))"

declare bit_length.simps [simp del]

text \<open>
  For a positive fraction \<open>q\<close>: the \<open>g\<close> with \<open>2 ^ g \<le> q < 2 ^ (g + 1)\<close>, and the \<open>n\<close> with
  \<open>10 ^ (n - 1) \<le> q < 10 ^ n\<close>. The lengths of numerator and denominator give each up to
  one, and a comparison decides.
\<close>

definition binary_exponent :: "nat \<times> nat \<Rightarrow> int" where
  "binary_exponent q =
     (let g = int (bit_length (fst q)) - int (bit_length (snd q))
      in if snd (scale 2 q g) \<le> fst (scale 2 q g) then g else g - 1)"

definition decimal_exponent :: "nat \<times> nat \<Rightarrow> int" where
  "decimal_exponent q =
     (let g = int (length (decimal (fst q))) - int (length (decimal (snd q)))
      in if snd (scale 10 q g) \<le> fst (scale 10 q g) then g + 1 else g)"

text \<open>
  A positive double is \<open>m * 2 ^ e\<close> with \<open>2 ^ 52 \<le> m < 2 ^ 53\<close> and \<open>e\<close> from \<open>- 1074\<close> to
  \<open>971\<close>, or with a smaller \<open>m\<close> at \<open>e = - 1074\<close> (a subnormal).
\<close>

datatype double = Zero | Finite nat int | Overflow

definition nearest_double :: "nat \<times> nat \<Rightarrow> double" where
  "nearest_double q =
     (if fst q = 0 then Zero
      else let e = max (binary_exponent q - 52) (- 1074);
               m = round_half_even (scale 2 q e)
           in if m = 0 then Zero
              else if m = 2 ^ 53 then (if 971 < e + 1 then Overflow else Finite (2 ^ 52) (e + 1))
              else if 971 < e then Overflow
              else Finite m e)"

text \<open>
  \<^verbatim>\<open>Number::toString\<close> prints the decimal \<open>s * 10 ^ u\<close> with the fewest digits \<open>k\<close> in \<open>s\<close>
  that reads back as the double, and of several such the one nearest to the double. Among
  the decimals of \<open>k\<close> digits only the two around the double can read back as it. Seventeen
  digits always do.
\<close>

definition reads_back :: "double \<Rightarrow> nat \<Rightarrow> int \<Rightarrow> bool" where
  "reads_back x s u = (nearest_double (scale 10 (s, 1) (- u)) = x)"

definition digits_at :: "nat \<Rightarrow> int \<Rightarrow> nat \<Rightarrow> (nat \<times> int) option" where
  "digits_at m e k =
     (let q = scale 2 (m, 1) (- e);
          u = decimal_exponent q - int k;
          below = fst (scale 10 q u) div snd (scale 10 q u);
          nearest = round_half_even (scale 10 q u)
      in if reads_back (Finite m e) nearest u then Some (nearest, u)
         else if reads_back (Finite m e) below u then Some (below, u)
         else if reads_back (Finite m e) (below + 1) u then Some (below + 1, u)
         else None)"

fun shortest :: "nat \<Rightarrow> nat \<Rightarrow> int \<Rightarrow> nat \<Rightarrow> nat \<times> int" where
  "shortest 0 m e k =
     (let q = scale 2 (m, 1) (- e); u = decimal_exponent q - int k
      in (round_half_even (scale 10 q u), u))"
| "shortest (Suc tries) m e k =
     (case digits_at m e k of Some su \<Rightarrow> su | None \<Rightarrow> shortest tries m e (Suc k))"

text \<open>The Number value for the literal \<open>0.ds * 10 ^ e\<close>, negated when \<open>neg\<close>.\<close>

definition digits_value :: "nat list \<Rightarrow> nat" where
  "digits_value ds = foldl (\<lambda>n d. 10 * n + d) 0 ds"

definition decimal_number :: "bool \<Rightarrow> nat \<times> int \<Rightarrow> number" where
  "decimal_number neg su =
     make_number neg (map digit_value (decimal (fst su)))
       (snd su + int (length (decimal (fst su))))"

fun number_of_double :: "bool \<Rightarrow> double \<Rightarrow> number" where
  "number_of_double neg Zero = Number False [] 0"
| "number_of_double neg Overflow = Infinity neg"
| "number_of_double neg (Finite m e) = decimal_number neg (shortest 16 m e 1)"

definition Number_value :: "bool \<Rightarrow> nat list \<Rightarrow> int \<Rightarrow> number" where
  "Number_value neg ds e =
     number_of_double neg (nearest_double (scale 10 (digits_value ds, 1) (int (length ds) - e)))"

subsection \<open>\<^verbatim>\<open>JSON.parse\<close>\<close>

text \<open>
  The text is cut into tokens, and the tokens are read by a machine with a stack of the
  arrays and objects that are still open. A syntax error is \<open>None\<close>. An object
  receives its members as own data properties in the order of the text (a repeated key
  keeps its first place and takes the last value; \<^verbatim>\<open>__proto__\<close> is a key like any other).
\<close>

datatype token =
    LeftBrace | RightBrace | LeftBracket | RightBracket | Colon | Comma
  | StringToken jsstring | NumberToken number | TrueToken | FalseToken | NullToken

definition json_whitespace :: "nat \<Rightarrow> bool" where
  "json_whitespace c = (c = 9 \<or> c = 10 \<or> c = 13 \<or> c = 32)"

text \<open>The code unit that the escape \<^verbatim>\<open>\e\<close> stands for, \<open>e\<close> one of \<^verbatim>\<open>" / \ b f n r t\<close>.\<close>

definition escape_unit :: "nat \<Rightarrow> nat option" where
  "escape_unit e =
     (if e = 34 \<or> e = 47 \<or> e = 92 then Some e
      else if e = 98 then Some 8
      else if e = 102 then Some 12
      else if e = 110 then Some 10
      else if e = 114 then Some 13
      else if e = 116 then Some 9
      else None)"

fun hex4 :: "jsstring \<Rightarrow> nat option" where
  "hex4 (a # b # c # d # s) =
     (case hex_octet [a, b] of
        None \<Rightarrow> None
      | Some x \<Rightarrow> (case hex_octet [c, d] of None \<Rightarrow> None | Some y \<Rightarrow> Some (256 * x + y)))"
| "hex4 s = None"

text \<open>The contents of a string literal whose opening quote has been read, and the rest.\<close>

fun scan_string :: "jsstring \<Rightarrow> (jsstring \<times> jsstring) option" where
  "scan_string [] = None"
| "scan_string (c # s) =
     (if c = 34 then Some ([], s)
      else if c < 32 then None
      else if c \<noteq> 92 then map_option (\<lambda>tr. (c # fst tr, snd tr)) (scan_string s)
      else if s = [] then None
      else if hd s = 117 then
        (case hex4 (tl s) of
           None \<Rightarrow> None
         | Some u \<Rightarrow> map_option (\<lambda>tr. (u # fst tr, snd tr)) (scan_string (drop 5 s)))
      else
        (case escape_unit (hd s) of
           None \<Rightarrow> None
         | Some u \<Rightarrow> map_option (\<lambda>tr. (u # fst tr, snd tr)) (scan_string (tl s))))"

text \<open>
  A number literal at the front of a string:
  \<^verbatim>\<open>-? (0 | [1-9][0-9]*) (.[0-9]+)? ([eE][+-]?[0-9]+)?\<close>. The fraction's digits and the
  exponent's value are read first, each with the rest of the string; the literal
  \<open>0.ds * 10 ^ e\<close> then gives its double.
\<close>

definition scan_fraction :: "jsstring \<Rightarrow> (jsstring \<times> jsstring) option" where
  "scan_fraction s =
     (if s \<noteq> [] \<and> hd s = 46 then
        (if takeWhile is_digit (tl s) = [] then None
         else Some (takeWhile is_digit (tl s), dropWhile is_digit (tl s)))
      else Some ([], s))"

definition scan_exponent :: "jsstring \<Rightarrow> (int \<times> jsstring) option" where
  "scan_exponent s =
     (if s \<noteq> [] \<and> (hd s = 101 \<or> hd s = 69) then
        (let neg = (tl s \<noteq> [] \<and> hd (tl s) = 45);
             s' = (if tl s \<noteq> [] \<and> (hd (tl s) = 43 \<or> hd (tl s) = 45) then tl (tl s) else tl s);
             ds = takeWhile is_digit s'
         in if ds = [] then None
            else Some (if neg then - int (decimal_value ds) else int (decimal_value ds),
                       dropWhile is_digit s'))
      else Some (0, s))"

definition scan_number :: "jsstring \<Rightarrow> (number \<times> jsstring) option" where
  "scan_number s =
     (let neg = (s \<noteq> [] \<and> hd s = 45);
          s1 = (if neg then tl s else s);
          ip = takeWhile is_digit s1
      in if ip = [] \<or> (hd ip = 48 \<and> tl ip \<noteq> []) then None
         else case scan_fraction (dropWhile is_digit s1) of
                None \<Rightarrow> None
              | Some f \<Rightarrow>
                  (case scan_exponent (snd f) of
                     None \<Rightarrow> None
                   | Some e \<Rightarrow>
                       Some (Number_value neg (map digit_value (ip @ fst f))
                               (int (length ip) + fst e),
                             snd e)))"

lemma scan_string_shorter: "scan_string s = Some (t, r) \<Longrightarrow> length r < length s"
proof (induction s arbitrary: t r rule: scan_string.induct)
  case 1
  then show ?case by simp
next
  case (2 c s)
  then show ?case
    by (fastforce split: if_splits option.splits)
qed

lemma length_dropWhile_tl0: "length (dropWhile P xs) \<le> length xs"
  by (simp add: length_dropWhile_le)

lemma length_dropWhile_less: "takeWhile P xs \<noteq> [] \<Longrightarrow> length (dropWhile P xs) < length xs"
  by (cases xs) (auto simp: less_Suc_eq_le length_dropWhile_le split: if_splits)

lemma length_dropWhile_tl1: "length (dropWhile P (tl xs)) \<le> length xs"
  using length_dropWhile_tl0[of P "tl xs"] by simp

lemma length_dropWhile_tl2: "length (dropWhile P (tl (tl xs))) \<le> length xs"
  using length_dropWhile_tl0[of P "tl (tl xs)"] by simp

lemma scan_fraction_length: "scan_fraction s = Some f \<Longrightarrow> length (snd f) \<le> length s"
  unfolding scan_fraction_def
  by (auto split: if_splits intro: length_dropWhile_tl1)

lemma scan_exponent_length: "scan_exponent s = Some e \<Longrightarrow> length (snd e) \<le> length s"
  unfolding scan_exponent_def Let_def
  by (auto split: if_splits intro: length_dropWhile_tl1 length_dropWhile_tl2)

lemma scan_number_shorter: "scan_number s = Some (n, r) \<Longrightarrow> length r < length s"
proof -
  assume a: "scan_number s = Some (n, r)"
  define s1 where "s1 = (if s \<noteq> [] \<and> hd s = 45 then tl s else s)"
  have ip: "takeWhile is_digit s1 \<noteq> []"
    using a unfolding scan_number_def s1_def Let_def by (auto split: if_splits)
  obtain f e where f: "scan_fraction (dropWhile is_digit s1) = Some f"
    and e: "scan_exponent (snd f) = Some e" and r: "r = snd e"
    using a ip unfolding scan_number_def s1_def Let_def
    by (simp split: if_splits option.splits)
  have "length s1 \<le> length s" unfolding s1_def by simp
  moreover have "length (dropWhile is_digit s1) < length s1"
    using ip by (rule length_dropWhile_less)
  moreover have "length (snd f) \<le> length (dropWhile is_digit s1)"
    using f by (rule scan_fraction_length)
  moreover have "length (snd e) \<le> length (snd f)"
    using e by (rule scan_exponent_length)
  ultimately show ?thesis using r by simp
qed

function tokens :: "jsstring \<Rightarrow> token list option" where
  "tokens [] = Some []"
| "tokens (c # s) =
     (if json_whitespace c then tokens s
      else if c = 123 then map_option (Cons LeftBrace) (tokens s)
      else if c = 125 then map_option (Cons RightBrace) (tokens s)
      else if c = 91 then map_option (Cons LeftBracket) (tokens s)
      else if c = 93 then map_option (Cons RightBracket) (tokens s)
      else if c = 58 then map_option (Cons Colon) (tokens s)
      else if c = 44 then map_option (Cons Comma) (tokens s)
      else if c = 34 then
        (case scan_string s of
           None \<Rightarrow> None
         | Some tr \<Rightarrow> map_option (Cons (StringToken (fst tr))) (tokens (snd tr)))
      else if c = 45 \<or> is_digit c then
        (case scan_number (c # s) of
           None \<Rightarrow> None
         | Some nr \<Rightarrow> map_option (Cons (NumberToken (fst nr))) (tokens (snd nr)))
      else if take 4 (c # s) = str ''true'' then map_option (Cons TrueToken) (tokens (drop 3 s))
      else if take 5 (c # s) = str ''false'' then map_option (Cons FalseToken) (tokens (drop 4 s))
      else if take 4 (c # s) = str ''null'' then map_option (Cons NullToken) (tokens (drop 3 s))
      else None)"
  by pat_completeness auto
termination
proof (relation "measure length")
  show "wf (measure length)" by simp
next
  fix c s tr
  assume "scan_string s = Some tr"
  then have "length (snd tr) < length s"
    using scan_string_shorter [of s "fst tr" "snd tr"] by simp
  then show "(snd tr, c # s) \<in> measure length" by simp
next
  fix c s nr
  assume "scan_number (c # s) = Some nr"
  then have "length (snd nr) < length (c # s)"
    using scan_number_shorter [of "c # s" "fst nr" "snd nr"] by simp
  then show "(snd nr, c # s) \<in> measure length" by simp
qed simp_all

text \<open>
  The machine. A frame is an array or object that is still open: an array with its
  elements so far, an object with its properties so far and the key that awaits its
  value. The mode says which tokens may come next.
\<close>

datatype frame = ArrayFrame "json list" | ObjectFrame properties "jsstring option"

datatype mode =
    Value | ValueOrClose | KeyOrClose | Key | ColonNext | CommaOrClose | Finished json

text \<open>A value is complete: it is the whole text, an element, or the value of a member.\<close>

fun complete :: "frame list \<Rightarrow> json \<Rightarrow> (frame list \<times> mode) option" where
  "complete [] v = Some ([], Finished v)"
| "complete (ArrayFrame xs # stack) v = Some (ArrayFrame (xs @ [v]) # stack, CommaOrClose)"
| "complete (ObjectFrame ps (Some k) # stack) v =
     Some (ObjectFrame (define_property ps k v) None # stack, CommaOrClose)"
| "complete (ObjectFrame ps None # stack) v = None"

definition begins_value :: "mode \<Rightarrow> bool" where
  "begins_value m = (m = Value \<or> m = ValueOrClose)"

fun step :: "frame list \<times> mode \<Rightarrow> token \<Rightarrow> (frame list \<times> mode) option" where
  "step (stack, m) (StringToken s) =
     (if begins_value m then complete stack (JStr s)
      else if m = KeyOrClose \<or> m = Key then
        (case stack of
           ObjectFrame ps pending # rest \<Rightarrow> Some (ObjectFrame ps (Some s) # rest, ColonNext)
         | _ \<Rightarrow> None)
      else None)"
| "step (stack, m) (NumberToken n) = (if begins_value m then complete stack (JNum n) else None)"
| "step (stack, m) TrueToken = (if begins_value m then complete stack (JBool True) else None)"
| "step (stack, m) FalseToken = (if begins_value m then complete stack (JBool False) else None)"
| "step (stack, m) NullToken = (if begins_value m then complete stack JNull else None)"
| "step (stack, m) LeftBracket =
     (if begins_value m then Some (ArrayFrame [] # stack, ValueOrClose) else None)"
| "step (stack, m) LeftBrace =
     (if begins_value m then Some (ObjectFrame [] None # stack, KeyOrClose) else None)"
| "step (stack, m) RightBracket =
     (if m = ValueOrClose \<or> m = CommaOrClose then
        (case stack of ArrayFrame xs # rest \<Rightarrow> complete rest (JArr xs) | _ \<Rightarrow> None)
      else None)"
| "step (stack, m) RightBrace =
     (if m = KeyOrClose \<or> m = CommaOrClose then
        (case stack of ObjectFrame ps None # rest \<Rightarrow> complete rest (JObj ps) | _ \<Rightarrow> None)
      else None)"
| "step (stack, m) Comma =
     (if m = CommaOrClose then
        (case stack of
           ArrayFrame xs # rest \<Rightarrow> Some (stack, Value)
         | ObjectFrame ps pending # rest \<Rightarrow> Some (stack, Key)
         | [] \<Rightarrow> None)
      else None)"
| "step (stack, m) Colon = (if m = ColonNext then Some (stack, Value) else None)"

fun run :: "frame list \<times> mode \<Rightarrow> token list \<Rightarrow> (frame list \<times> mode) option" where
  "run state [] = Some state"
| "run state (t # ts) = (case step state t of None \<Rightarrow> None | Some state' \<Rightarrow> run state' ts)"

definition JSON_parse :: "jsstring \<Rightarrow> json option" where
  "JSON_parse text =
     (case tokens text of
        None \<Rightarrow> None
      | Some ts \<Rightarrow>
          (case run ([], Value) ts of
             Some ([], Finished v) \<Rightarrow> Some v
           | _ \<Rightarrow> None))"

subsection \<open>Numbers and \<^verbatim>\<open>String(value)\<close>\<close>

text \<open>
  A natural number below \<open>2^53\<close> as a number value: the \<^verbatim>\<open>length\<close> of an array, a
  string or a function. Such a number is a double, and its digits are its shortest decimal.
\<close>

definition nat_number :: "nat \<Rightarrow> number" where
  "nat_number n = make_number False (map digit_value (decimal n)) (int (length (decimal n)))"

text \<open>
  \<^verbatim>\<open>Number::toString\<close> in radix 10, on the digits \<open>ds\<close> (\<open>k\<close> of them) and the exponent
  \<open>n\<close> of \<open>0.ds * 10 ^ n\<close>: plain digits up to \<open>10^21\<close>, a decimal point inside or after
  \<^verbatim>\<open>0.\<close> down to \<open>10^-6\<close>, exponent notation beyond.
\<close>

fun Number_toString :: "number \<Rightarrow> jsstring" where
  "Number_toString (Number neg ds n) =
     (let k = int (length ds);
          digits = map (\<lambda>d. 48 + d) ds
      in if ds = [] then [48]
         else (if neg then [45] else []) @
           (if k \<le> n \<and> n \<le> 21 then digits @ replicate (nat (n - k)) 48
            else if 0 < n \<and> n \<le> 21 then take (nat n) digits @ [46] @ drop (nat n) digits
            else if - 6 < n \<and> n \<le> 0 then [48, 46] @ replicate (nat (- n)) 48 @ digits
            else [hd digits] @ (if k = 1 then [] else 46 # tl digits) @ [101] @
                 (if 0 \<le> n - 1 then [43] else [45]) @ decimal (nat \<bar>n - 1\<bar>)))"
| "Number_toString (Infinity neg) = (if neg then [45] else []) @ str ''Infinity''"
| "Number_toString NaN = str ''NaN''"

text \<open>The exception that a conversion or a member lookup can throw.\<close>

datatype failure = TypeError

text \<open>\<^verbatim>\<open>Array.prototype.join\<close> with a comma, on the strings of the elements.\<close>

fun join_comma :: "(failure + jsstring) list \<Rightarrow> failure + jsstring" where
  "join_comma [] = Inr []"
| "join_comma [x] = x"
| "join_comma (x # y # ys) =
     (case x of
        Inl e \<Rightarrow> Inl e
      | Inr s \<Rightarrow> (case join_comma (y # ys) of Inl e \<Rightarrow> Inl e | Inr r \<Rightarrow> Inr (s @ 44 # r)))"

text \<open>
  \<^verbatim>\<open>String(value)\<close>. An array is the comma-joined strings of its elements, \<^verbatim>\<open>null\<close>
  elements giving the empty string. An object is converted by the \<^verbatim>\<open>toString\<close> it
  finds: the inherited one answers \<^verbatim>\<open>[object Object]\<close>; an own property of that name,
  which holds JSON data and cannot be called, leaves only \<^verbatim>\<open>valueOf\<close>, which does not
  return a primitive, and the conversion throws a TypeError.
\<close>

fun ToString :: "json \<Rightarrow> failure + jsstring" where
  "ToString JNull = Inr (str ''null'')"
| "ToString (JBool b) = Inr (if b then str ''true'' else str ''false'')"
| "ToString (JNum n) = Inr (Number_toString n)"
| "ToString (JStr s) = Inr s"
| "ToString (JArr xs) =
     join_comma (map (\<lambda>x. if x = JNull then Inr [] else ToString x) xs)"
| "ToString (JObj ps) =
     (if has_own ps (str ''toString'') then Inl TypeError else Inr (str ''[object Object]''))"

section \<open>Termination of the recursions through arrays and objects\<close>

lemma size_element: "x \<in> set xs \<Longrightarrow> size x < Suc (size_list size xs)"
  by (induction xs) auto

lemma size_property:
  "(k, v) \<in> set ps \<Longrightarrow> size v < Suc (size_list (size_prod (\<lambda>_. 0) size) ps)"
  by (induction ps) auto

lemma size_get_own:
  "get_own ps k = Some v \<Longrightarrow> size v < Suc (size_list (size_prod (\<lambda>_. 0) size) ps)"
  unfolding get_own_def by (auto dest: map_of_SomeD size_property)

section \<open>Key reordering\<close>

text \<open>\<^verbatim>\<open>reorderJsonKeys\<close>: primitives before objects and arrays, recursively.\<close>

fun reorderJsonKeys :: "json \<Rightarrow> json" where
  "reorderJsonKeys (JArr xs) = JArr (map reorderJsonKeys xs)"
| "reorderJsonKeys (JObj record) =
     (let buckets = foldl (\<lambda>buckets kv.
            if is_object (snd kv)
            then (fst buckets, assign (snd buckets) (fst kv) (reorderJsonKeys (snd kv)))
            else (assign (fst buckets) (fst kv) (snd kv), snd buckets))
            (empty_object, empty_object) record;
          primitives = fst buckets;
          objects = snd buckets
      in JObj (spread (properties primitives) (properties objects)))"
| "reorderJsonKeys v = v"

text \<open>
  \<^verbatim>\<open>applyCustomOrder\<close>: the keys named in \<open>order\<close> first, in that sequence, then the
  remaining keys; recursively, with the same \<open>order\<close>.
\<close>

function applyCustomOrder :: "json \<Rightarrow> jsstring list \<Rightarrow> json" where
  "applyCustomOrder (JArr xs) order = JArr (map (\<lambda>item. applyCustomOrder item order) xs)"
| "applyCustomOrder (JObj record) order =
     (let ordered = foldl (\<lambda>ordered key.
            case get_own record key of
              Some v \<Rightarrow>
                assign ordered key (if is_object v then applyCustomOrder v order else v)
            | None \<Rightarrow> ordered)
            empty_object order;
          remaining = foldl (\<lambda>remaining kv.
            if fst kv \<notin> set order
            then assign remaining (fst kv)
                   (if is_object (snd kv) then applyCustomOrder (snd kv) order else snd kv)
            else remaining)
            empty_object record
      in JObj (spread (properties ordered) (properties remaining)))"
| "applyCustomOrder JNull order = JNull"
| "applyCustomOrder (JBool b) order = JBool b"
| "applyCustomOrder (JNum n) order = JNum n"
| "applyCustomOrder (JStr s) order = JStr s"
  by pat_completeness auto
termination
  by (relation "measure (\<lambda>(v, order). size v)")
     (auto simp: size_element size_property size_get_own)

section \<open>String decoding\<close>

text \<open>
  \<^verbatim>\<open>decodeUriStrings(obj, maxDepth = 10)\<close>. The budget \<open>maxDepth\<close> is an integer here.
  The result object of the last case is built by assignment, and is returned as its own
  properties.
\<close>

text \<open>\<^verbatim>\<open>try { decoded = decodeURIComponent(obj); } catch { decoded = obj; }\<close>\<close>

definition decoded_text :: "jsstring \<Rightarrow> jsstring" where
  "decoded_text s = (case decodeURIComponent s of Some d \<Rightarrow> d | None \<Rightarrow> s)"

definition looks_like_json :: "jsstring \<Rightarrow> bool" where
  "looks_like_json decoded =
     (let trimmed = trimStart decoded
      in length trimmed > 0 \<and> (hd trimmed = 123 \<or> hd trimmed = 91))"

function decodeUriStrings :: "json \<Rightarrow> int \<Rightarrow> json" where
  "decodeUriStrings JNull maxDepth = JNull"
| "decodeUriStrings (JStr s) maxDepth =
     (if maxDepth \<le> 0 then JStr s
      else
        let decoded = decoded_text s
        in if looks_like_json decoded then
             (case JSON_parse decoded of
                Some parsed \<Rightarrow> decodeUriStrings parsed (maxDepth - 1)
              | None \<Rightarrow> JStr decoded)
           else JStr decoded)"
| "decodeUriStrings (JArr xs) maxDepth =
     (if maxDepth \<le> 0 then JArr xs
      else JArr (map (\<lambda>item. decodeUriStrings item maxDepth) xs))"
| "decodeUriStrings (JObj record) maxDepth =
     (if maxDepth \<le> 0 then JObj record
      else JObj (properties (foldl (\<lambda>result kv.
             assign result (fst kv) (decodeUriStrings (snd kv) maxDepth))
             empty_object record)))"
| "decodeUriStrings (JBool b) maxDepth = JBool b"
| "decodeUriStrings (JNum n) maxDepth = JNum n"
  by pat_completeness auto
termination
  by (relation "measures [\<lambda>(obj, maxDepth). nat maxDepth, \<lambda>(obj, maxDepth). size obj]")
     (auto simp: size_element size_property)

text \<open>
  The greatest number of embedded-JSON unwraps (the calls made on a parsed value) along
  one path of the recursion of \<open>decodeUriStrings obj maxDepth\<close>.
\<close>

function unwraps :: "json \<Rightarrow> int \<Rightarrow> nat" where
  "unwraps JNull maxDepth = 0"
| "unwraps (JStr s) maxDepth =
     (if maxDepth \<le> 0 then 0
      else
        let decoded = decoded_text s
        in if looks_like_json decoded then
             (case JSON_parse decoded of
                Some parsed \<Rightarrow> Suc (unwraps parsed (maxDepth - 1))
              | None \<Rightarrow> 0)
           else 0)"
| "unwraps (JArr xs) maxDepth =
     (if maxDepth \<le> 0 then 0
      else foldl max 0 (map (\<lambda>item. unwraps item maxDepth) xs))"
| "unwraps (JObj record) maxDepth =
     (if maxDepth \<le> 0 then 0
      else foldl max 0 (map (\<lambda>kv. unwraps (snd kv) maxDepth) record))"
| "unwraps (JBool b) maxDepth = 0"
| "unwraps (JNum n) maxDepth = 0"
  by pat_completeness auto
termination
  by (relation "measures [\<lambda>(obj, maxDepth). nat maxDepth, \<lambda>(obj, maxDepth). size obj]")
     (auto simp: size_element size_property)

section \<open>The path accessor and the line filter\<close>

subsection \<open>The objects of the standard library that a path can reach\<close>

text \<open>
  A lookup \<^verbatim>\<open>value[k]\<close> that finds no own property goes to the prototype chain, and from
  there a path can walk on through the standard library: from a prototype to its
  constructor, from a constructor to its functions and constants. These are the objects
  and the properties with string names of ECMAScript 2024 with its Annex B. A function
  is known by its \<^verbatim>\<open>name\<close> and \<^verbatim>\<open>length\<close>, which is all that a path can read of it.
\<close>

datatype kind = ObjectKind | FunctionKind | ArrayKind | StringKind | NumberKind | BooleanKind

datatype library = Prototype kind | Constructor kind | Method jsstring nat

text \<open>
  What \<^verbatim>\<open>value[k]\<close> gives: \<^verbatim>\<open>undefined\<close>, a value of JSON (a number or a string also when
  it comes from the library), an object of the library, or a TypeError thrown by an
  accessor.
\<close>

datatype lookup = NotFound | Found json | Library library | Thrown

text \<open>
  A property holds a value, or is the accessor \<^verbatim>\<open>__proto__\<close>, which answers the
  prototype of the value that was asked, or one of the accessors \<^verbatim>\<open>caller\<close> and
  \<^verbatim>\<open>arguments\<close> of \<^verbatim>\<open>Function.prototype\<close>, which throw.
\<close>

datatype slot = Holds lookup | PrototypeGetter | Restricted

definition methods :: "(string \<times> nat) list \<Rightarrow> jsstring \<Rightarrow> slot option" where
  "methods table k =
     map_option (\<lambda>n. Holds (Library (Method k n))) (map_of (map (\<lambda>e. (str (fst e), snd e)) table) k)"

definition object_methods :: "(string \<times> nat) list" where
  "object_methods =
     [(''hasOwnProperty'', 1), (''isPrototypeOf'', 1), (''propertyIsEnumerable'', 1),
      (''toLocaleString'', 0), (''toString'', 0), (''valueOf'', 0), (''__defineGetter__'', 2),
      (''__defineSetter__'', 2), (''__lookupGetter__'', 1), (''__lookupSetter__'', 1)]"

definition function_methods :: "(string \<times> nat) list" where
  "function_methods = [(''apply'', 2), (''bind'', 1), (''call'', 1), (''toString'', 0)]"

definition array_methods :: "(string \<times> nat) list" where
  "array_methods =
     [(''at'', 1), (''concat'', 1), (''copyWithin'', 2), (''entries'', 0), (''every'', 1),
      (''fill'', 1), (''filter'', 1), (''find'', 1), (''findIndex'', 1), (''findLast'', 1),
      (''findLastIndex'', 1), (''flat'', 0), (''flatMap'', 1), (''forEach'', 1),
      (''includes'', 1), (''indexOf'', 1), (''join'', 1), (''keys'', 0), (''lastIndexOf'', 1),
      (''map'', 1), (''pop'', 0), (''push'', 1), (''reduce'', 1), (''reduceRight'', 1),
      (''reverse'', 0), (''shift'', 0), (''slice'', 2), (''some'', 1), (''sort'', 1),
      (''splice'', 2), (''toLocaleString'', 0), (''toReversed'', 0), (''toSorted'', 1),
      (''toSpliced'', 2), (''toString'', 0), (''unshift'', 1), (''values'', 0), (''with'', 2)]"

definition string_methods :: "(string \<times> nat) list" where
  "string_methods =
     [(''at'', 1), (''charAt'', 1), (''charCodeAt'', 1), (''codePointAt'', 1), (''concat'', 1),
      (''endsWith'', 1), (''includes'', 1), (''indexOf'', 1), (''isWellFormed'', 0),
      (''lastIndexOf'', 1), (''localeCompare'', 1), (''match'', 1), (''matchAll'', 1),
      (''normalize'', 0), (''padEnd'', 1), (''padStart'', 1), (''repeat'', 1), (''replace'', 2),
      (''replaceAll'', 2), (''search'', 1), (''slice'', 2), (''split'', 2), (''startsWith'', 1),
      (''substring'', 2), (''toLocaleLowerCase'', 0), (''toLocaleUpperCase'', 0),
      (''toLowerCase'', 0), (''toString'', 0), (''toUpperCase'', 0), (''toWellFormed'', 0),
      (''trim'', 0), (''trimEnd'', 0), (''trimStart'', 0), (''valueOf'', 0), (''substr'', 2),
      (''anchor'', 1), (''big'', 0), (''blink'', 0), (''bold'', 0), (''fixed'', 0),
      (''fontcolor'', 1), (''fontsize'', 1), (''italics'', 0), (''link'', 1), (''small'', 0),
      (''strike'', 0), (''sub'', 0), (''sup'', 0)]"

definition number_methods :: "(string \<times> nat) list" where
  "number_methods =
     [(''toExponential'', 1), (''toFixed'', 1), (''toLocaleString'', 0), (''toPrecision'', 1),
      (''toString'', 1), (''valueOf'', 0)]"

definition boolean_methods :: "(string \<times> nat) list" where
  "boolean_methods = [(''toString'', 0), (''valueOf'', 0)]"

definition object_functions :: "(string \<times> nat) list" where
  "object_functions =
     [(''assign'', 2), (''create'', 2), (''defineProperties'', 2), (''defineProperty'', 3),
      (''entries'', 1), (''freeze'', 1), (''fromEntries'', 1), (''getOwnPropertyDescriptor'', 2),
      (''getOwnPropertyDescriptors'', 1), (''getOwnPropertyNames'', 1),
      (''getOwnPropertySymbols'', 1), (''getPrototypeOf'', 1), (''groupBy'', 2), (''hasOwn'', 2),
      (''is'', 2), (''isExtensible'', 1), (''isFrozen'', 1), (''isSealed'', 1), (''keys'', 1),
      (''preventExtensions'', 1), (''seal'', 1), (''setPrototypeOf'', 2), (''values'', 1)]"

definition array_functions :: "(string \<times> nat) list" where
  "array_functions = [(''from'', 1), (''isArray'', 1), (''of'', 0)]"

definition string_functions :: "(string \<times> nat) list" where
  "string_functions = [(''fromCharCode'', 1), (''fromCodePoint'', 1), (''raw'', 1)]"

definition number_functions :: "(string \<times> nat) list" where
  "number_functions =
     [(''isFinite'', 1), (''isInteger'', 1), (''isNaN'', 1), (''isSafeInteger'', 1),
      (''parseFloat'', 1), (''parseInt'', 2)]"

definition number_constants :: "(string \<times> number) list" where
  "number_constants =
     [(''EPSILON'', Number False [2, 2, 2, 0, 4, 4, 6, 0, 4, 9, 2, 5, 0, 3, 1, 3] (- 15)),
      (''MAX_SAFE_INTEGER'', Number False [9, 0, 0, 7, 1, 9, 9, 2, 5, 4, 7, 4, 0, 9, 9, 1] 16),
      (''MAX_VALUE'', Number False [1, 7, 9, 7, 6, 9, 3, 1, 3, 4, 8, 6, 2, 3, 1, 5, 7] 309),
      (''MIN_SAFE_INTEGER'', Number True [9, 0, 0, 7, 1, 9, 9, 2, 5, 4, 7, 4, 0, 9, 9, 1] 16),
      (''MIN_VALUE'', Number False [5] (- 323)),
      (''NaN'', NaN),
      (''NEGATIVE_INFINITY'', Infinity True),
      (''POSITIVE_INFINITY'', Infinity False)]"

text \<open>
  The names that a value finds on \<^verbatim>\<open>Object.prototype\<close>, and the names of the methods of
  \<^verbatim>\<open>Array.prototype\<close>.
\<close>

definition object_prototype :: "jsstring list" where
  "object_prototype = str ''constructor'' # str ''__proto__'' # map (\<lambda>e. str (fst e)) object_methods"

definition array_prototype :: "jsstring list" where
  "array_prototype = map (\<lambda>e. str (fst e)) array_methods"

fun name_of :: "kind \<Rightarrow> jsstring" where
  "name_of ObjectKind = str ''Object''"
| "name_of FunctionKind = str ''Function''"
| "name_of ArrayKind = str ''Array''"
| "name_of StringKind = str ''String''"
| "name_of NumberKind = str ''Number''"
| "name_of BooleanKind = str ''Boolean''"

text \<open>
  The own properties of a prototype object besides \<^verbatim>\<open>constructor\<close>. The prototypes of
  arrays and of strings are an empty array and an empty string themselves, and that of
  functions is a function without a name. \<^verbatim>\<open>trimLeft\<close> and \<^verbatim>\<open>trimRight\<close> are the functions
  \<^verbatim>\<open>trimStart\<close> and \<^verbatim>\<open>trimEnd\<close> under a second name.
\<close>

fun members :: "kind \<Rightarrow> jsstring \<Rightarrow> slot option" where
  "members ObjectKind k =
     (if k = str ''__proto__'' then Some PrototypeGetter else methods object_methods k)"
| "members FunctionKind k =
     (if k = str ''caller'' \<or> k = str ''arguments'' then Some Restricted
      else if k = str ''length'' then Some (Holds (Found (JNum (nat_number 0))))
      else if k = str ''name'' then Some (Holds (Found (JStr [])))
      else methods function_methods k)"
| "members ArrayKind k =
     (if k = str ''length'' then Some (Holds (Found (JNum (nat_number 0))))
      else methods array_methods k)"
| "members StringKind k =
     (if k = str ''length'' then Some (Holds (Found (JNum (nat_number 0))))
      else if k = str ''trimLeft'' then Some (Holds (Library (Method (str ''trimStart'') 0)))
      else if k = str ''trimRight'' then Some (Holds (Library (Method (str ''trimEnd'') 0)))
      else methods string_methods k)"
| "members NumberKind k = methods number_methods k"
| "members BooleanKind k = methods boolean_methods k"

text \<open>The own properties of a constructor besides \<^verbatim>\<open>length\<close>, \<^verbatim>\<open>name\<close> and \<^verbatim>\<open>prototype\<close>.\<close>

fun statics :: "kind \<Rightarrow> jsstring \<Rightarrow> slot option" where
  "statics ObjectKind k = methods object_functions k"
| "statics ArrayKind k = methods array_functions k"
| "statics StringKind k = methods string_functions k"
| "statics NumberKind k =
     (case map_of (map (\<lambda>e. (str (fst e), snd e)) number_constants) k of
        Some n \<Rightarrow> Some (Holds (Found (JNum n)))
      | None \<Rightarrow> methods number_functions k)"
| "statics c k = None"

fun own_property :: "library \<Rightarrow> jsstring \<Rightarrow> slot option" where
  "own_property (Prototype c) k =
     (if k = str ''constructor'' then Some (Holds (Library (Constructor c))) else members c k)"
| "own_property (Constructor c) k =
     (if k = str ''length'' then Some (Holds (Found (JNum (nat_number 1))))
      else if k = str ''name'' then Some (Holds (Found (JStr (name_of c))))
      else if k = str ''prototype'' then Some (Holds (Library (Prototype c)))
      else statics c k)"
| "own_property (Method name n) k =
     (if k = str ''length'' then Some (Holds (Found (JNum (nat_number n))))
      else if k = str ''name'' then Some (Holds (Found (JStr name)))
      else None)"

text \<open>
  The prototype chain of a library object, itself first, and what \<^verbatim>\<open>__proto__\<close> answers
  for it: every function inherits from \<^verbatim>\<open>Function.prototype\<close>, every prototype but
  \<^verbatim>\<open>Object.prototype\<close> from that one, and that one from \<^verbatim>\<open>null\<close>.
\<close>

fun chain :: "library \<Rightarrow> library list" where
  "chain (Prototype ObjectKind) = [Prototype ObjectKind]"
| "chain (Prototype c) = [Prototype c, Prototype ObjectKind]"
| "chain f = [f, Prototype FunctionKind, Prototype ObjectKind]"

fun prototype_of :: "library \<Rightarrow> lookup" where
  "prototype_of (Prototype ObjectKind) = Found JNull"
| "prototype_of (Prototype c) = Library (Prototype ObjectKind)"
| "prototype_of f = Library (Prototype FunctionKind)"

text \<open>
  The lookup of \<open>k\<close> along a chain, for a value whose prototype is \<open>proto\<close>: the first own
  property of that name decides.
\<close>

fun search :: "library list \<Rightarrow> lookup \<Rightarrow> jsstring \<Rightarrow> lookup" where
  "search [] proto k = NotFound"
| "search (l # ls) proto k =
     (case own_property l k of
        None \<Rightarrow> search ls proto k
      | Some (Holds v) \<Rightarrow> v
      | Some PrototypeGetter \<Rightarrow> proto
      | Some Restricted \<Rightarrow> Thrown)"

definition get :: "library \<Rightarrow> jsstring \<Rightarrow> lookup" where
  "get l k = search (chain l) (prototype_of l) k"

text \<open>What a value of JSON inherits: its prototype is the prototype object of its kind.\<close>

definition inherited :: "kind \<Rightarrow> jsstring \<Rightarrow> lookup" where
  "inherited c k = search (chain (Prototype c)) (Library (Prototype c)) k"

text \<open>
  \<^verbatim>\<open>String(value)\<close> on an object of the library. A built-in function prints as the engine
  of the editor, V8, prints it. \<^verbatim>\<open>Object.prototype\<close> is a plain object,
  \<^verbatim>\<open>Array.prototype\<close> an empty array, and the prototypes of strings, numbers and booleans
  are wrappers of the empty string, of zero and of \<^verbatim>\<open>false\<close>.
\<close>

definition function_text :: "jsstring \<Rightarrow> jsstring" where
  "function_text name = str ''function '' @ name @ str ''() { [native code] }''"

fun Library_toString :: "library \<Rightarrow> jsstring" where
  "Library_toString (Method name n) = function_text name"
| "Library_toString (Constructor c) = function_text (name_of c)"
| "Library_toString (Prototype ObjectKind) = str ''[object Object]''"
| "Library_toString (Prototype FunctionKind) = function_text []"
| "Library_toString (Prototype ArrayKind) = []"
| "Library_toString (Prototype StringKind) = []"
| "Library_toString (Prototype NumberKind) = str ''0''"
| "Library_toString (Prototype BooleanKind) = str ''false''"

subsection \<open>Member lookup \<^verbatim>\<open>value[k]\<close>\<close>

text \<open>
  A lookup finds an own property first: the properties of an object, and for an array or
  a string its elements under their array indices and its \<^verbatim>\<open>length\<close>. Otherwise it goes
  to the prototype chain.
\<close>

fun member :: "json \<Rightarrow> jsstring \<Rightarrow> lookup" where
  "member (JObj ps) k =
     (case get_own ps k of Some v \<Rightarrow> Found v | None \<Rightarrow> inherited ObjectKind k)"
| "member (JArr xs) k =
     (case array_index k of
        Some i \<Rightarrow> if i < length xs then Found (xs ! i) else inherited ArrayKind k
      | None \<Rightarrow>
          if k = str ''length'' then Found (JNum (nat_number (length xs)))
          else inherited ArrayKind k)"
| "member (JStr s) k =
     (case array_index k of
        Some i \<Rightarrow> if i < length s then Found (JStr [s ! i]) else inherited StringKind k
      | None \<Rightarrow>
          if k = str ''length'' then Found (JNum (nat_number (length s)))
          else inherited StringKind k)"
| "member (JNum n) k = inherited NumberKind k"
| "member (JBool b) k = inherited BooleanKind k"
| "member JNull k = NotFound"

subsection \<open>\<^verbatim>\<open>getNestedValue\<close>\<close>

text \<open>
  The loop over the segments. It returns \<^verbatim>\<open>undefined\<close> once the value is \<^verbatim>\<open>null\<close> or
  \<^verbatim>\<open>undefined\<close>, and a TypeError thrown by a lookup ends it.
\<close>

fun walk :: "lookup \<Rightarrow> jsstring list \<Rightarrow> lookup" where
  "walk current [] = current"
| "walk NotFound (k # keys) = NotFound"
| "walk (Found JNull) (k # keys) = NotFound"
| "walk (Found v) (k # keys) = walk (member v k) keys"
| "walk (Library l) (k # keys) = walk (get l k) keys"
| "walk Thrown (k # keys) = Thrown"

definition getNestedValue :: "json \<Rightarrow> jsstring \<Rightarrow> lookup" where
  "getNestedValue obj key = walk (Found obj) (split_dot key)"

subsection \<open>\<^verbatim>\<open>matchesAllFilters\<close> and \<^verbatim>\<open>filterLines\<close>\<close>

record filter =
  filter_key :: jsstring
  filter_value :: jsstring

text \<open>
  \<^verbatim>\<open>String(value)\<close> on what the path has reached; \<^verbatim>\<open>undefined\<close> fails the filter before
  the conversion.
\<close>

fun matchesAllFilters :: "json \<Rightarrow> filter list \<Rightarrow> failure + bool" where
  "matchesAllFilters json [] = Inr True"
| "matchesAllFilters json (f # filters) =
     (case getNestedValue json (filter_key f) of
        NotFound \<Rightarrow> Inr False
      | Thrown \<Rightarrow> Inl TypeError
      | Library l \<Rightarrow>
          if Library_toString l \<noteq> filter_value f then Inr False
          else matchesAllFilters json filters
      | Found v \<Rightarrow>
          (case ToString v of
             Inl e \<Rightarrow> Inl e
           | Inr s \<Rightarrow> if s \<noteq> filter_value f then Inr False else matchesAllFilters json filters))"

text \<open>
  The body of the loop of \<^verbatim>\<open>filterLines\<close>: the text to push, if any. The \<^verbatim>\<open>try\<close> /
  \<^verbatim>\<open>catch\<close> swallows the SyntaxError of \<^verbatim>\<open>JSON.parse\<close> and the TypeError of
  \<^verbatim>\<open>matchesAllFilters\<close> alike.
\<close>

definition filter_line :: "filter list \<Rightarrow> jsstring \<Rightarrow> jsstring option" where
  "filter_line filters line =
     (let trimmed = trim line
      in if trimmed = [] then None
         else case JSON_parse trimmed of
                None \<Rightarrow> None
              | Some json \<Rightarrow>
                  (case matchesAllFilters json filters of
                     Inr matches \<Rightarrow> if matches then Some trimmed else None
                   | Inl TypeError \<Rightarrow> None))"

fun filterLines_loop :: "jsstring list \<Rightarrow> filter list \<Rightarrow> jsstring list \<Rightarrow> jsstring list" where
  "filterLines_loop [] filters result = result"
| "filterLines_loop (line # lines) filters result =
     (case filter_line filters line of
        None \<Rightarrow> filterLines_loop lines filters result
      | Some trimmed \<Rightarrow> filterLines_loop lines filters (result @ [trimmed]))"

definition filterLines :: "jsstring list \<Rightarrow> filter list \<Rightarrow> jsstring list" where
  "filterLines lines filters = filterLines_loop lines filters []"

section \<open>The transformation of the selected line in \<^verbatim>\<open>PreviewPanel.update\<close>\<close>

record PreviewState =
  reorderKeys :: bool
  wordWrap :: bool
  uriDecode :: bool
  customOrder :: "jsstring list"
  activeFilters :: "filter list"

text \<open>What \<^verbatim>\<open>update\<close> hands to the webview for the trimmed text of the selected line.\<close>

datatype preview = EmptyLine | ParseError | Shown json

definition transform :: "PreviewState \<Rightarrow> json \<Rightarrow> json" where
  "transform state parsed =
     (let json = (if length (customOrder state) > 0 then applyCustomOrder parsed (customOrder state)
                  else if reorderKeys state then reorderJsonKeys parsed
                  else parsed)
      in if uriDecode state then decodeUriStrings json 10 else json)"

definition update :: "PreviewState \<Rightarrow> jsstring \<Rightarrow> preview" where
  "update state line =
     (let lineText = trim line
      in if lineText = [] then EmptyLine
         else case JSON_parse lineText of
                None \<Rightarrow> ParseError
              | Some parsed \<Rightarrow> Shown (transform state parsed))"

section \<open>Notions for the statements about key order\<close>

text \<open>
  A plain key is a key that is neither an array index nor \<^verbatim>\<open>__proto__\<close>: the keys that an
  object keeps in the order of their creation and that an assignment creates as own
  properties. \<open>first_occurrences\<close> drops the repetitions from a list.
\<close>

definition plain_key :: "jsstring \<Rightarrow> bool" where
  "plain_key k = (array_index k = None \<and> k \<noteq> str ''__proto__'')"

fun first_occurrences :: "'a list \<Rightarrow> 'a list" where
  "first_occurrences [] = []"
| "first_occurrences (x # xs) = x # filter (\<lambda>y. y \<noteq> x) (first_occurrences xs)"

text \<open>
  A list of properties is in own-property order when creating its properties one after
  the other, in a fresh object, gives the list itself: its keys are distinct, the array
  indices come first, in ascending order, and the other keys follow. The objects that
  \<^verbatim>\<open>JSON.parse\<close> and the functions of this program create are in this order.
\<close>

definition own_property_order :: "properties \<Rightarrow> bool" where
  "own_property_order ps = (spread ps [] = ps)"

section \<open>The line filter, in the words of its specification\<close>

text \<open>
  A trimmed line passes when it is not empty, parses as JSON, and the parsed value
  satisfies every filter.
\<close>

definition passes :: "filter list \<Rightarrow> jsstring \<Rightarrow> bool" where
  "passes filters t =
     (t \<noteq> [] \<and>
      (case JSON_parse t of
         None \<Rightarrow> False
       | Some json \<Rightarrow> matchesAllFilters json filters = Inr True))"

section \<open>Evaluation of the model on concrete inputs\<close>

lemma escaped_octets_numeral:
  "escaped_octets (numeral n) s = escaped_octets (Suc (pred_numeral n)) s"
  by (simp add: numeral_eq_Suc)

lemma JSON_parse_empty: "JSON_parse [] = None"
  by (simp add: JSON_parse_def)

lemmas object_eval =
  str_def own_keys_def has_own_def get_own_def is_digit_def digit_value_def decimal_value_def
  array_index_def define_property_def empty_object_def assign_def spread_def
  make_number_def nat_number_def decimal.simps

lemmas string_eval =
  is_whitespace_def trimStart_def trim_def hex_value_def leading_ones_def continuation_def
  utf16_def decoded_text_def looks_like_json_def escaped_octets_numeral

lemma shortest_numeral:
  "shortest (numeral n) m e k =
     (case digits_at m e k of
        Some su \<Rightarrow> su
      | None \<Rightarrow> shortest (numeral n - 1) m e (Suc k))"
proof -
  have "numeral n = Suc (numeral n - 1)"
    by simp
  then have "shortest (numeral n) m e k = shortest (Suc (numeral n - 1)) m e k"
    by (rule arg_cong)
  then show ?thesis
    by (simp only: shortest.simps)
qed

lemmas number_eval =
  scale_def round_half_even_def bit_length.simps binary_exponent_def decimal_exponent_def
  nearest_double_def reads_back_def digits_at_def digits_value_def Number_value_def
  shortest_numeral decimal.simps make_number_def digit_value_def decimal_number_def Let_def

text \<open>The literals \<^verbatim>\<open>1\<close> and \<^verbatim>\<open>2\<close> are doubles, and print as themselves.\<close>

lemma Number_value_1: "Number_value neg [Suc 0] 1 = Number neg [Suc 0] 1"
  by (simp add: number_eval cong: let_weak_cong)

lemma Number_value_2: "Number_value neg [2] 1 = Number neg [2] 1"
  by (simp add: number_eval cong: let_weak_cong)

text \<open>
  The literal \<^verbatim>\<open>9007199254740993\<close>, which is \<open>2 ^ 53 + 1\<close>, lies halfway between two
  doubles and goes to the even one, \<^verbatim>\<open>9007199254740992\<close>.
\<close>

lemma Number_value_rounds:
  "Number_value False [9, 0, 0, 7, Suc 0, 9, 9, 2, 5, 4, 7, 4, 0, 9, 9, 3] 16
     = Number False [9, 0, 0, 7, Suc 0, 9, 9, 2, 5, 4, 7, 4, 0, 9, 9, 2] 16"
  by (simp add: number_eval cong: let_weak_cong)

lemmas parse_eval =
  json_whitespace_def escape_unit_def scan_fraction_def scan_exponent_def scan_number_def
  begins_value_def JSON_parse_def Let_def Number_value_1 Number_value_2 Number_value_rounds

lemmas filter_eval =
  methods_def object_methods_def function_methods_def array_methods_def string_methods_def
  number_methods_def boolean_methods_def object_functions_def array_functions_def
  string_functions_def number_functions_def number_constants_def function_text_def
  object_prototype_def array_prototype_def get_def inherited_def getNestedValue_def
  filter_line_def filterLines_def

section \<open>Objects with plain keys\<close>

lemma applyCustomOrder_primitive: "\<not> is_object v \<Longrightarrow> applyCustomOrder v order = v"
  by (cases v) simp_all

lemma reorderJsonKeys_primitive: "\<not> is_object v \<Longrightarrow> reorderJsonKeys v = v"
  by (cases v) simp_all

lemma assign_plain:
  "plain_key k \<Longrightarrow> assign obj k v = obj\<lparr>properties := define_property (properties obj) k v\<rparr>"
  by (simp add: assign_def plain_key_def)

lemma define_property_plain:
  "plain_key k \<Longrightarrow>
   define_property ps k v = (if has_own ps k then update_own ps k v else ps @ [(k, v)])"
  by (simp add: define_property_def plain_key_def)

lemma update_own_same:
  "map_of ps k = Some v \<Longrightarrow> update_own ps k v = ps"
  by (induction ps) (auto split: if_splits)

lemma has_own_map_of: "has_own ps k \<longleftrightarrow> map_of ps k \<noteq> None"
  by (simp add: has_own_def own_keys_def map_of_eq_None_iff)

lemma define_property_fresh:
  "plain_key k \<Longrightarrow> \<not> has_own ps k \<Longrightarrow> define_property ps k v = ps @ [(k, v)]"
  by (simp add: define_property_plain)

lemma define_property_same:
  "plain_key k \<Longrightarrow> map_of ps k = Some v \<Longrightarrow> define_property ps k v = ps"
  by (simp add: define_property_plain update_own_same has_own_map_of)

lemma foldl_define_fresh:
  "\<lbrakk>list_all plain_key (map fst qs); distinct (map fst qs);
    set (map fst qs) \<inter> set (map fst ps) = {}\<rbrakk>
   \<Longrightarrow> foldl (\<lambda>ps kv. define_property ps (fst kv) (snd kv)) ps qs = ps @ qs"
proof (induction qs arbitrary: ps)
  case Nil
  then show ?case by simp
next
  case (Cons q qs)
  have "define_property ps (fst q) (snd q) = ps @ [q]"
    using Cons.prems by (simp add: define_property_fresh has_own_def own_keys_def)
  moreover have "set (map fst qs) \<inter> set (map fst (ps @ [q])) = {}"
    using Cons.prems by auto
  ultimately show ?case
    using Cons.IH [of "ps @ [q]"] Cons.prems by simp
qed

lemma spread_plain:
  "\<lbrakk>list_all plain_key (map fst (a @ b)); distinct (map fst (a @ b))\<rbrakk> \<Longrightarrow> spread a b = a @ b"
  unfolding spread_def using foldl_define_fresh [of "a @ b" "[]"] by simp


lemma foldl_assign_fresh:
  "\<lbrakk>list_all plain_key (map fst ps); distinct (map fst ps);
    set (map fst ps) \<inter> set (map fst (properties acc)) = {}\<rbrakk>
   \<Longrightarrow> properties (foldl (\<lambda>obj kv. if P kv then assign obj (fst kv) (h kv) else obj) acc ps)
       = properties acc @ map (\<lambda>kv. (fst kv, h kv)) (filter P ps)"
proof (induction ps arbitrary: acc)
  case Nil
  then show ?case by simp
next
  case (Cons p ps)
  show ?case
  proof (cases "P p")
    case False
    with Cons show ?thesis by simp
  next
    case True
    let ?acc = "assign acc (fst p) (h p)"
    have acc: "properties ?acc = properties acc @ [(fst p, h p)]"
      using Cons.prems by (simp add: assign_plain define_property_fresh has_own_def own_keys_def)
    then have "set (map fst ps) \<inter> set (map fst (properties ?acc)) = {}"
      using Cons.prems by auto
    with Cons.IH [of ?acc] Cons.prems acc True show ?thesis by simp
  qed
qed

lemma filter_first_occurrences:
  "filter P (first_occurrences (x # xs)) =
     (if P x then x # filter (\<lambda>y. P y \<and> y \<noteq> x) (first_occurrences xs)
      else filter P (first_occurrences xs))"
  by (auto simp: filter_filter conj_commute intro: filter_cong)

lemma ordered_loop:
  "\<lbrakk>list_all plain_key (map fst ps);
    properties acc = map (\<lambda>k. (k, h (the (map_of ps k)))) ks;
    distinct ks; set ks \<subseteq> set (map fst ps)\<rbrakk>
   \<Longrightarrow> properties (foldl (\<lambda>ordered key.
          case get_own ps key of Some v \<Rightarrow> assign ordered key (h v) | None \<Rightarrow> ordered) acc os)
       = map (\<lambda>k. (k, h (the (map_of ps k))))
           (ks @ filter (\<lambda>k. has_own ps k \<and> k \<notin> set ks) (first_occurrences os))"
proof (induction os arbitrary: acc ks)
  case Nil
  then show ?case by simp
next
  case (Cons key os)
  show ?case
  proof (cases "get_own ps key")
    case None
    then have "\<not> has_own ps key"
      by (simp add: has_own_map_of get_own_def)
    with None Cons show ?thesis
      by (simp add: filter_first_occurrences del: first_occurrences.simps)
  next
    case (Some v)
    then have own: "has_own ps key" and v: "the (map_of ps key) = v"
      by (simp_all add: has_own_map_of get_own_def)
    then have plain: "plain_key key"
      using Cons.prems(1) by (auto simp: has_own_def own_keys_def list_all_iff)
    show ?thesis
    proof (cases "key \<in> set ks")
      case True
      then have "map_of (properties acc) key = Some (h v)"
        using Cons.prems(2) v by (simp add: map_of_map_restrict)
      then have "assign acc key (h v) = acc"
        using plain by (simp add: assign_plain define_property_same)
      moreover have "filter (\<lambda>k. has_own ps k \<and> k \<notin> set ks) (first_occurrences (key # os))
          = filter (\<lambda>k. has_own ps k \<and> k \<notin> set ks) (first_occurrences os)"
        using True by (auto simp: filter_first_occurrences intro: filter_cong simp del: first_occurrences.simps)
      ultimately show ?thesis
        using Cons.IH [of acc ks] Cons.prems Some by (simp del: first_occurrences.simps)
    next
      case False
      let ?acc = "assign acc key (h v)"
      have "\<not> has_own (properties acc) key"
        using False Cons.prems(2) by (simp add: has_own_def own_keys_def comp_def)
      then have acc: "properties ?acc = map (\<lambda>k. (k, h (the (map_of ps k)))) (ks @ [key])"
        using plain Cons.prems(2) v by (simp add: assign_plain define_property_fresh)
      have ks: "distinct (ks @ [key])" "set (ks @ [key]) \<subseteq> set (map fst ps)"
        using False Cons.prems own by (auto simp: has_own_def own_keys_def)
      have "filter (\<lambda>k. has_own ps k \<and> k \<notin> set ks) (first_occurrences (key # os))
          = key # filter (\<lambda>k. has_own ps k \<and> k \<notin> set (ks @ [key])) (first_occurrences os)"
        using False own by (auto simp: filter_first_occurrences intro: filter_cong simp del: first_occurrences.simps)
      with Cons.IH [OF Cons.prems(1) acc ks] Some show ?thesis
        by (simp del: first_occurrences.simps)
    qed
  qed
qed


lemma set_first_occurrences: "set (first_occurrences xs) = set xs"
  by (induction xs) auto

lemma distinct_first_occurrences: "distinct (first_occurrences xs)"
  by (induction xs) (auto simp: set_first_occurrences)

lemma map_of_own:
  "distinct (map fst ps) \<Longrightarrow> kv \<in> set ps \<Longrightarrow> the (map_of ps (fst kv)) = snd kv"
  by (cases kv) simp

lemma map_values_by_key:
  "distinct (map fst ps) \<Longrightarrow> set qs \<subseteq> set ps \<Longrightarrow>
   map (\<lambda>kv. (fst kv, f (snd kv))) qs = map (\<lambda>k. (k, f (the (map_of ps k)))) (map fst qs)"
  by (induction qs) (auto simp: map_of_own)

section \<open>Objects with any keys\<close>

lemma buckets_fst:
  "fst (foldl (\<lambda>buckets kv. if Q kv then (fst buckets, F (snd buckets) kv)
                                else (G (fst buckets) kv, snd buckets)) (a, b) ps)
     = foldl (\<lambda>obj kv. if \<not> Q kv then G obj kv else obj) a ps"
  by (induction ps arbitrary: a b) auto

lemma buckets_snd:
  "snd (foldl (\<lambda>buckets kv. if Q kv then (fst buckets, F (snd buckets) kv)
                                else (G (fst buckets) kv, snd buckets)) (a, b) ps)
     = foldl (\<lambda>obj kv. if Q kv then F obj kv else obj) b ps"
  by (induction ps arbitrary: a b) auto

lemma map_of_absent: "k \<notin> fst ` set ps \<Longrightarrow> map_of ps k = None"
  by (simp add: map_of_eq_None_iff)

lemma update_own_split:
  "k \<in> fst ` set ps \<Longrightarrow>
   \<exists>ys w zs. ps = ys @ (k, w) # zs \<and> k \<notin> fst ` set ys \<and> update_own ps k v = ys @ (k, v) # zs"
proof (induction ps)
  case Nil
  then show ?case by simp
next
  case (Cons p ps)
  obtain k' v' where p: "p = (k', v')" by (cases p)
  show ?case
  proof (cases "k' = k")
    case True
    with p have "p # ps = [] @ (k, v') # ps \<and> k \<notin> fst ` set [] \<and> update_own (p # ps) k v = [] @ (k, v) # ps"
      by simp
    then show ?thesis by blast
  next
    case False
    with Cons.prems p have "k \<in> fst ` set ps" by auto
    from Cons.IH [OF this] obtain ys w zs where
      "ps = ys @ (k, w) # zs" "k \<notin> fst ` set ys" "update_own ps k v = ys @ (k, v) # zs"
      by blast
    with False p have "p # ps = (p # ys) @ (k, w) # zs \<and> k \<notin> fst ` set (p # ys)
        \<and> update_own (p # ps) k v = (p # ys) @ (k, v) # zs"
      by auto
    then show ?thesis by blast
  qed
qed

lemma insert_index_split:
  "\<exists>ys zs. ps = ys @ zs \<and> insert_index i k v ps = ys @ (k, v) # zs"
proof (induction ps)
  case Nil
  then show ?case by simp
next
  case (Cons p ps)
  obtain k' v' where p: "p = (k', v')" by (cases p)
  from Cons.IH obtain ys zs where split: "ps = ys @ zs" "insert_index i k v ps = ys @ (k, v) # zs"
    by blast
  show ?case
  proof (cases "\<exists>j. array_index k' = Some j \<and> j < i")
    case True
    with p split have "p # ps = (p # ys) @ zs \<and> insert_index i k v (p # ps) = (p # ys) @ (k, v) # zs"
      by auto
    then show ?thesis by blast
  next
    case False
    with p have "p # ps = [] @ (p # ps) \<and> insert_index i k v (p # ps) = [] @ (k, v) # (p # ps)"
      by (auto split: option.splits)
    then show ?thesis by blast
  qed
qed

lemma define_property_split:
  "(\<exists>ys w zs. ps = ys @ (k, w) # zs \<and> k \<notin> fst ` set ys \<and> define_property ps k v = ys @ (k, v) # zs)
   \<or> (k \<notin> fst ` set ps \<and> (\<exists>ys zs. ps = ys @ zs \<and> define_property ps k v = ys @ (k, v) # zs))"
proof (cases "k \<in> fst ` set ps")
  case True
  then have "define_property ps k v = update_own ps k v"
    by (simp add: define_property_def has_own_def own_keys_def)
  with update_own_split [OF True, of v] show ?thesis by simp
next
  case False
  show ?thesis
  proof (cases "array_index k")
    case None
    with False have "ps = ps @ [] \<and> define_property ps k v = ps @ (k, v) # []"
      by (simp add: define_property_def has_own_def own_keys_def)
    with False show ?thesis by blast
  next
    case (Some i)
    with False have "define_property ps k v = insert_index i k v ps"
      by (simp add: define_property_def has_own_def own_keys_def)
    with insert_index_split [of ps i k v] False show ?thesis by simp
  qed
qed

lemma set_define_property:
  "fst ` set (define_property ps k v) = insert k (fst ` set ps)"
  using define_property_split [of ps k v] by (force simp: image_Un)

lemma distinct_define_property:
  "distinct (map fst ps) \<Longrightarrow> distinct (map fst (define_property ps k v))"
  using define_property_split [of ps k v] by auto

lemma map_of_define_property:
  "distinct (map fst ps) \<Longrightarrow> map_of (define_property ps k v) = (map_of ps)(k \<mapsto> v)"
proof -
  assume dist: "distinct (map fst ps)"
  from define_property_split [of ps k v] show ?thesis
  proof (elim disjE exE conjE)
    fix ys w zs
    assume "ps = ys @ (k, w) # zs" "k \<notin> fst ` set ys" "define_property ps k v = ys @ (k, v) # zs"
    then show ?thesis
      by (auto simp: fun_eq_iff map_add_def map_of_absent split: option.splits)
  next
    fix ys zs
    assume "k \<notin> fst ` set ps" "ps = ys @ zs" "define_property ps k v = ys @ (k, v) # zs"
    then show ?thesis
      by (auto simp: fun_eq_iff map_add_def map_of_absent image_Un split: option.splits)
  qed
qed


lemma assign_not_proto:
  "k \<noteq> str ''__proto__'' \<Longrightarrow>
   assign obj k v = obj\<lparr>properties := define_property (properties obj) k v\<rparr>"
  by (simp add: assign_def)

lemma distinct_define_all:
  "distinct (map fst acc) \<Longrightarrow>
   distinct (map fst (foldl (\<lambda>ps kv. define_property ps (fst kv) (snd kv)) acc qs))"
  by (induction qs arbitrary: acc) (simp_all add: distinct_define_property)

lemma set_define_all:
  "fst ` set (foldl (\<lambda>ps kv. define_property ps (fst kv) (snd kv)) acc qs)
     = fst ` set acc \<union> fst ` set qs"
  by (induction qs arbitrary: acc) (auto simp: set_define_property)

lemma map_of_define_all:
  "distinct (map fst acc) \<Longrightarrow>
   map_of (foldl (\<lambda>ps kv. define_property ps (fst kv) (snd kv)) acc qs)
     = map_of acc ++ map_of (rev qs)"
proof (induction qs arbitrary: acc)
  case Nil
  then show ?case by simp
next
  case (Cons q qs)
  have "map_of (define_property acc (fst q) (snd q)) = (map_of acc)(fst q \<mapsto> snd q)"
    using Cons.prems by (rule map_of_define_property)
  moreover have "distinct (map fst (define_property acc (fst q) (snd q)))"
    using Cons.prems by (rule distinct_define_property)
  ultimately show ?case
    using Cons.IH [of "define_property acc (fst q) (snd q)"]
    by (auto simp: fun_eq_iff map_add_def split: option.splits)
qed

lemma map_of_define_fresh:
  "map_of (foldl (\<lambda>ps kv. define_property ps (fst kv) (snd kv)) [] qs) = map_of (rev qs)"
  using map_of_define_all [of "[]" qs] by simp

lemma set_define_fresh:
  "fst ` set (foldl (\<lambda>ps kv. define_property ps (fst kv) (snd kv)) [] qs) = fst ` set qs"
  using set_define_all [of "[]" qs] by simp

lemma distinct_define_fresh:
  "distinct (map fst (foldl (\<lambda>ps kv. define_property ps (fst kv) (snd kv)) [] qs))"
  using distinct_define_all [of "[]" qs] by simp

lemma map_of_rev_distinct: "distinct (map fst ps) \<Longrightarrow> map_of (rev ps) = map_of ps"
proof (induction ps)
  case Nil
  then show ?case by simp
next
  case (Cons p ps)
  then show ?case
    by (auto simp: fun_eq_iff map_add_def map_of_absent split: option.splits)
qed

lemma foldl_assign_define:
  "str ''__proto__'' \<notin> fst ` set ps \<Longrightarrow>
   properties (foldl (\<lambda>obj kv. if P kv then assign obj (fst kv) (h kv) else obj) acc ps)
     = foldl (\<lambda>qs kv. define_property qs (fst kv) (snd kv)) (properties acc)
         (map (\<lambda>kv. (fst kv, h kv)) (filter P ps))"
proof (induction ps arbitrary: acc)
  case Nil
  then show ?case by simp
next
  case (Cons p ps)
  then have "fst p \<noteq> str ''__proto__''" by auto
  then have "properties (assign acc (fst p) (h p)) = define_property (properties acc) (fst p) (h p)"
    by (simp add: assign_not_proto)
  with Cons show ?case by simp
qed

lemma ordered_loop_define:
  "str ''__proto__'' \<notin> fst ` set ps \<Longrightarrow>
   properties (foldl (\<lambda>ordered key.
       case get_own ps key of Some v \<Rightarrow> assign ordered key (h v) | None \<Rightarrow> ordered) acc order)
     = foldl (\<lambda>qs kv. define_property qs (fst kv) (snd kv)) (properties acc)
         (map (\<lambda>k. (k, h (the (get_own ps k)))) (filter (has_own ps) order))"
proof (induction order arbitrary: acc)
  case Nil
  then show ?case by simp
next
  case (Cons key order)
  show ?case
  proof (cases "get_own ps key")
    case None
    then have "\<not> has_own ps key" by (simp add: has_own_map_of get_own_def)
    with None Cons show ?thesis by simp
  next
    case (Some v)
    then have own: "has_own ps key" by (simp add: has_own_map_of get_own_def)
    then have "key \<noteq> str ''__proto__''"
      using Cons.prems by (force simp: has_own_def own_keys_def)
    then have "properties (assign acc key (h v)) = define_property (properties acc) key (h v)"
      by (simp add: assign_not_proto)
    with Cons.IH [OF Cons.prems, of "assign acc key (h v)"] Some own show ?thesis by simp
  qed
qed



lemma map_of_filter_distinct:
  "distinct (map fst ps) \<Longrightarrow>
   map_of (filter P ps) k = (case map_of ps k of Some v \<Rightarrow> if P (k, v) then Some v else None | None \<Rightarrow> None)"
proof (induction ps)
  case Nil
  then show ?case by simp
next
  case (Cons p ps)
  obtain k' v' where p: "p = (k', v')" by (cases p)
  with Cons show ?case
    by (fastforce simp: map_of_absent rev_image_eqI split: option.splits dest: map_of_SomeD)
qed

lemma map_of_map_values:
  "map_of (map (\<lambda>kv. (fst kv, f (snd kv))) ps) k = map_option f (map_of ps k)"
  by (induction ps) auto

lemma keys_update_own: "map fst (update_own ps k v) = map fst ps"
  by (induction ps) auto

lemma keys_insert_index:
  "map fst ps = map fst qs \<Longrightarrow>
   map fst (insert_index i k v ps) = map fst (insert_index i k w qs)"
proof (induction ps arbitrary: qs)
  case Nil
  then show ?case by simp
next
  case (Cons p ps)
  then obtain q qs' where qs: "qs = q # qs'" by (cases qs) auto
  obtain k' v' where p: "p = (k', v')" by (cases p)
  obtain w' where q: "q = (k', w')" using Cons.prems qs p by (cases q) auto
  have "map fst ps = map fst qs'" using Cons.prems qs by simp
  from Cons.IH [OF this] this show ?case
    by (simp add: qs p q split: option.splits)
qed

lemma keys_define_property:
  "map fst ps = map fst qs \<Longrightarrow>
   map fst (define_property ps k v) = map fst (define_property qs k w)"
proof -
  assume same: "map fst ps = map fst qs"
  then have "has_own ps k = has_own qs k"
    by (simp add: has_own_def own_keys_def)
  with same show ?thesis
    using keys_insert_index [OF same, of _ k v w]
    by (simp add: define_property_def keys_update_own split: option.splits)
qed

lemma keys_define_all:
  "map fst acc = map fst acc' \<Longrightarrow> map fst xs = map fst ys \<Longrightarrow>
   map fst (foldl (\<lambda>ps kv. define_property ps (fst kv) (snd kv)) acc xs)
     = map fst (foldl (\<lambda>ps kv. define_property ps (fst kv) (snd kv)) acc' ys)"
proof (induction xs arbitrary: ys acc acc')
  case Nil
  then show ?case by simp
next
  case (Cons x xs)
  then obtain y ys' where ys: "ys = y # ys'" by (cases ys) auto
  with Cons.prems have k: "fst x = fst y" and rest: "map fst xs = map fst ys'" by simp_all
  have "map fst (define_property acc (fst x) (snd x)) = map fst (define_property acc' (fst y) (snd y))"
    using keys_define_property [OF Cons.prems(1)] k by simp
  from Cons.IH [OF this rest] show ?case by (simp add: ys)
qed

lemma same_keys_same_values:
  "map fst xs = map fst ys \<Longrightarrow> distinct (map fst xs) \<Longrightarrow> map_of xs = map_of ys \<Longrightarrow> xs = ys"
proof (induction xs arbitrary: ys)
  case Nil
  then show ?case by simp
next
  case (Cons x xs)
  then obtain y ys' where ys: "ys = y # ys'" by (cases ys) auto
  obtain k v where x: "x = (k, v)" by (cases x)
  obtain w where y: "y = (k, w)" using Cons.prems(1) ys x by (cases y) auto
  have keys: "map fst xs = map fst ys'"
    using Cons.prems(1) ys by simp
  have "k \<notin> set (map fst xs)"
    using Cons.prems(2) x by simp
  then have fresh: "k \<notin> fst ` set xs" "k \<notin> fst ` set ys'"
    using keys by (simp_all del: set_map add: set_map [symmetric])
  have "v = w"
    using Cons.prems(3) x y ys by (auto simp: fun_eq_iff split: if_splits)
  moreover have "map_of xs = map_of ys'"
  proof
    fix j
    show "map_of xs j = map_of ys' j"
      using Cons.prems(3) x y ys fresh
      by (cases "j = k") (auto simp: map_of_absent fun_eq_iff split: if_splits)
  qed
  with Cons.IH [OF keys] Cons.prems(2) have "xs = ys'" by simp
  ultimately show ?case by (simp add: x y ys)
qed

lemma own_property_order_distinct: "own_property_order ps \<Longrightarrow> distinct (map fst ps)"
  using distinct_define_fresh [of ps] by (simp add: own_property_order_def spread_def)

section \<open>Key-set invariance (C1)\<close>

text \<open>
  C1 says that both reorderings keep the key set of every object. The code loses the key
  \<^verbatim>\<open>__proto__\<close>: \<^verbatim>\<open>JSON.parse('{"__proto__":1,"a":2}')\<close> has the own keys
  \<^verbatim>\<open>__proto__\<close> and \<^verbatim>\<open>a\<close>, and both functions return an object whose only key is
  \<^verbatim>\<open>a\<close>, because they copy the properties by assignment into a fresh \<^verbatim>\<open>{}\<close>.
\<close>

theorem reordering_loses_proto_key:
  "reorderJsonKeys (JObj [(str ''__proto__'', JNum (nat_number 1)), (str ''a'', JNum (nat_number 2))])
     = JObj [(str ''a'', JNum (nat_number 2))]
   \<and> applyCustomOrder
       (JObj [(str ''__proto__'', JNum (nat_number 1)), (str ''a'', JNum (nat_number 2))])
       [str ''a'', str ''__proto__'']
     = JObj [(str ''a'', JNum (nat_number 2))]"
  by (simp add: object_eval)

text \<open>
  Apart from that key the invariance holds, array indices among the keys included.
\<close>

text \<open>
  Key-set invariance of \<^verbatim>\<open>reorderJsonKeys\<close>: for an object that has no key \<^verbatim>\<open>__proto__\<close>,
  the result is an object with the same keys, none of them twice, and every key holds
  its original value reordered in turn. (Array indices among the keys are allowed.)
\<close>

theorem reorder_keeps_other_keys:
  assumes "distinct (own_keys ps)" and "\<not> has_own ps (str ''__proto__'')"
  shows "\<exists>qs. reorderJsonKeys (JObj ps) = JObj qs
          \<and> distinct (own_keys qs)
          \<and> set (own_keys qs) = set (own_keys ps)
          \<and> (\<forall>k. get_own qs k = map_option reorderJsonKeys (get_own ps k))"
proof -
  let ?buckets = "foldl (\<lambda>buckets kv.
      if is_object (snd kv)
      then (fst buckets, assign (snd buckets) (fst kv) (reorderJsonKeys (snd kv)))
      else (assign (fst buckets) (fst kv) (snd kv), snd buckets))
      (empty_object, empty_object) ps"
  let ?dp = "foldl (\<lambda>qs kv. define_property qs (fst kv) (snd kv))"
  let ?a = "filter (\<lambda>kv. \<not> is_object (snd kv)) ps"
  let ?b = "map (\<lambda>kv. (fst kv, reorderJsonKeys (snd kv))) (filter (\<lambda>kv. is_object (snd kv)) ps)"
  let ?qs = "spread (properties (fst ?buckets)) (properties (snd ?buckets))"
  have dist: "distinct (map fst ps)" and proto: "str ''__proto__'' \<notin> fst ` set ps"
    using assms by (simp_all add: own_keys_def has_own_def)
  have "fst ?buckets = foldl (\<lambda>obj kv. if \<not> is_object (snd kv) then assign obj (fst kv) (snd kv) else obj) empty_object ps"
    by (rule buckets_fst [where G = "\<lambda>obj kv. assign obj (fst kv) (snd kv)"])
  then have primitives: "properties (fst ?buckets) = ?dp [] ?a"
    using foldl_assign_define [OF proto, of "\<lambda>kv. \<not> is_object (snd kv)" snd empty_object]
    by (simp add: empty_object_def)
  have "snd ?buckets = foldl (\<lambda>obj kv. if is_object (snd kv)
      then assign obj (fst kv) (reorderJsonKeys (snd kv)) else obj) empty_object ps"
    by (rule buckets_snd [where F = "\<lambda>obj kv. assign obj (fst kv) (reorderJsonKeys (snd kv))"])
  then have objects: "properties (snd ?buckets) = ?dp [] ?b"
    using foldl_assign_define [OF proto, of "\<lambda>kv. is_object (snd kv)"
        "\<lambda>kv. reorderJsonKeys (snd kv)" empty_object]
    by (simp add: empty_object_def)
  define prims where "prims = ?dp [] ?a"
  define objs where "objs = ?dp [] ?b"
  have qs: "?qs = ?dp [] (prims @ objs)"
    by (simp only: primitives objects spread_def prims_def objs_def)
  have da: "distinct (map fst ?a)" and db: "distinct (map fst ?b)"
    using dist by (simp_all add: distinct_map_filter comp_def)
  have dprims: "distinct (map fst prims)" and dobjs: "distinct (map fst objs)"
    by (simp_all only: prims_def objs_def distinct_define_fresh)
  have mprims: "map_of prims = map_of ?a"
    unfolding prims_def using da by (simp only: map_of_define_fresh map_of_rev_distinct)
  have mobjs: "map_of objs = map_of ?b"
    unfolding objs_def using db by (simp only: map_of_define_fresh map_of_rev_distinct)
  have "fst ` set ?qs = fst ` set prims \<union> fst ` set objs"
    by (simp only: qs set_define_fresh set_append image_Un)
  also have "\<dots> = fst ` set ?a \<union> fst ` set ?b"
    by (simp only: prims_def objs_def set_define_fresh)
  also have "\<dots> = fst ` set ps"
    by force
  finally have keys: "fst ` set ?qs = fst ` set ps" .
  have "map_of ?qs = map_of (rev (prims @ objs))"
    by (simp only: qs map_of_define_fresh)
  also have "\<dots> = map_of (rev prims) ++ map_of (rev objs)"
    by simp
  also have "\<dots> = map_of ?a ++ map_of ?b"
    using dprims dobjs by (simp only: map_of_rev_distinct mprims mobjs)
  finally have "map_of ?qs k = map_option reorderJsonKeys (map_of ps k)" for k
    using dist
    by (auto simp: map_add_def map_of_map_values map_of_filter_distinct reorderJsonKeys_primitive
        split: option.splits)
  moreover have "distinct (map fst ?qs)"
    by (simp only: qs distinct_define_fresh)
  moreover have "reorderJsonKeys (JObj ps) = JObj ?qs"
    by (simp add: Let_def)
  ultimately show ?thesis
    using keys by (auto simp: own_keys_def get_own_def simp del: reorderJsonKeys.simps)
qed

theorem reorder_keeps_other_keys_witness:
  "distinct (own_keys [(str ''0'', JObj []), (str ''a'', JNum (nat_number 1))])
   \<and> \<not> has_own [(str ''0'', JObj []), (str ''a'', JNum (nat_number 1))] (str ''__proto__'')
   \<and> (\<exists>qs. reorderJsonKeys (JObj [(str ''0'', JObj []), (str ''a'', JNum (nat_number 1))]) = JObj qs
          \<and> distinct (own_keys qs)
          \<and> set (own_keys qs) = set (own_keys [(str ''0'', JObj []), (str ''a'', JNum (nat_number 1))])
          \<and> (\<forall>k. get_own qs k = map_option reorderJsonKeys
                 (get_own [(str ''0'', JObj []), (str ''a'', JNum (nat_number 1))] k)))"
proof -
  let ?ps = "[(str ''0'', JObj []), (str ''a'', JNum (nat_number 1))]"
  have keys: "distinct (own_keys ?ps)" "\<not> has_own ?ps (str ''__proto__'')"
    by (simp_all add: object_eval)
  from reorder_keeps_other_keys [OF keys] keys show ?thesis by blast
qed

text \<open>
  Key-set invariance of \<^verbatim>\<open>applyCustomOrder\<close>, for every \<open>order\<close>, repetitions and unknown
  names included: for an object that has no key \<^verbatim>\<open>__proto__\<close>, the result is an object
  with the same keys, none of them twice, and every key holds its original value
  reordered with the same \<open>order\<close>.
\<close>

theorem custom_order_keeps_other_keys:
  assumes "distinct (own_keys ps)" and "\<not> has_own ps (str ''__proto__'')"
  shows "\<exists>qs. applyCustomOrder (JObj ps) order = JObj qs
          \<and> distinct (own_keys qs)
          \<and> set (own_keys qs) = set (own_keys ps)
          \<and> (\<forall>k. get_own qs k = map_option (\<lambda>v. applyCustomOrder v order) (get_own ps k))"
proof -
  let ?h = "\<lambda>v. applyCustomOrder v order"
  let ?ordered = "foldl (\<lambda>ordered key.
      case get_own ps key of Some v \<Rightarrow> assign ordered key (?h v) | None \<Rightarrow> ordered)
      empty_object order"
  let ?remaining = "foldl (\<lambda>remaining kv.
      if fst kv \<notin> set order then assign remaining (fst kv) (?h (snd kv)) else remaining)
      empty_object ps"
  let ?dp = "foldl (\<lambda>qs kv. define_property qs (fst kv) (snd kv))"
  let ?a = "map (\<lambda>k. (k, ?h (the (get_own ps k)))) (filter (has_own ps) order)"
  let ?b = "map (\<lambda>kv. (fst kv, ?h (snd kv))) (filter (\<lambda>kv. fst kv \<notin> set order) ps)"
  let ?qs = "spread (properties ?ordered) (properties ?remaining)"
  have h: "(if is_object v then applyCustomOrder v order else v) = ?h v" for v
    by (simp add: applyCustomOrder_primitive)
  have dist: "distinct (map fst ps)" and proto: "str ''__proto__'' \<notin> fst ` set ps"
    using assms by (simp_all add: own_keys_def has_own_def)
  have ordered: "properties ?ordered = ?dp [] ?a"
    using ordered_loop_define [OF proto, of ?h empty_object order]
    by (simp add: empty_object_def)
  have remaining: "properties ?remaining = ?dp [] ?b"
    using foldl_assign_define [OF proto, of "\<lambda>kv. fst kv \<notin> set order" "\<lambda>kv. ?h (snd kv)"
        empty_object]
    by (simp add: empty_object_def)
  define ord where "ord = ?dp [] ?a"
  define rem where "rem = ?dp [] ?b"
  have qs: "?qs = ?dp [] (ord @ rem)"
    by (simp only: ordered remaining spread_def ord_def rem_def)
  have db: "distinct (map fst ?b)"
    using dist by (simp add: distinct_map_filter comp_def)
  have dord: "distinct (map fst ord)" and drem: "distinct (map fst rem)"
    by (simp_all only: ord_def rem_def distinct_define_fresh)
  have mord: "map_of ord k = (if k \<in> set order \<and> has_own ps k
      then map_option ?h (map_of ps k) else None)" for k
  proof -
    have "map_of ord = map_of (map (\<lambda>k. (k, ?h (the (get_own ps k)))) (rev (filter (has_own ps) order)))"
      by (simp only: ord_def map_of_define_fresh rev_map)
    then show ?thesis
      by (auto simp: map_of_map_restrict restrict_map_def get_own_def has_own_map_of)
  qed
  have mrem: "map_of rem k = (if k \<notin> set order then map_option ?h (map_of ps k) else None)" for k
  proof -
    have "map_of rem = map_of ?b"
      unfolding rem_def using db by (simp only: map_of_define_fresh map_of_rev_distinct)
    then show ?thesis
      using dist
      by (auto simp: map_of_map_values [of ?h] map_of_filter_distinct split: option.splits)
  qed
  have "fst ` set ?qs = fst ` set ord \<union> fst ` set rem"
    by (simp only: qs set_define_fresh set_append image_Un)
  also have "\<dots> = fst ` set ?a \<union> fst ` set ?b"
    by (simp only: ord_def rem_def set_define_fresh)
  also have "\<dots> = fst ` set ps"
    by (force simp: has_own_def own_keys_def)
  finally have keys: "fst ` set ?qs = fst ` set ps" .
  have "map_of ?qs = map_of (rev (ord @ rem))"
    by (simp only: qs map_of_define_fresh)
  also have "\<dots> = map_of (rev ord) ++ map_of (rev rem)"
    by simp
  also have "\<dots> = map_of ord ++ map_of rem"
    using dord drem by (simp only: map_of_rev_distinct)
  finally have "map_of ?qs k = map_option ?h (map_of ps k)" for k
    by (auto simp: map_add_def mord mrem has_own_map_of split: option.splits)
  moreover have "distinct (map fst ?qs)"
    by (simp only: qs distinct_define_fresh)
  moreover have "applyCustomOrder (JObj ps) order = JObj ?qs"
    by (simp add: h Let_def cong: option.case_cong if_cong)
  ultimately show ?thesis
    using keys by (auto simp: own_keys_def get_own_def simp del: applyCustomOrder.simps)
qed

theorem custom_order_keeps_other_keys_witness:
  "distinct (own_keys [(str ''0'', JObj []), (str ''a'', JNum (nat_number 1))])
   \<and> \<not> has_own [(str ''0'', JObj []), (str ''a'', JNum (nat_number 1))] (str ''__proto__'')
   \<and> (\<exists>qs. applyCustomOrder (JObj [(str ''0'', JObj []), (str ''a'', JNum (nat_number 1))])
               [str ''a'', str ''a'', str ''z''] = JObj qs
          \<and> distinct (own_keys qs)
          \<and> set (own_keys qs) = set (own_keys [(str ''0'', JObj []), (str ''a'', JNum (nat_number 1))])
          \<and> (\<forall>k. get_own qs k = map_option (\<lambda>v. applyCustomOrder v [str ''a'', str ''a'', str ''z''])
                 (get_own [(str ''0'', JObj []), (str ''a'', JNum (nat_number 1))] k)))"
proof -
  let ?ps = "[(str ''0'', JObj []), (str ''a'', JNum (nat_number 1))]"
  have keys: "distinct (own_keys ?ps)" "\<not> has_own ?ps (str ''__proto__'')"
    by (simp_all add: object_eval)
  from custom_order_keeps_other_keys [OF keys, of "[str ''a'', str ''a'', str ''z'']"] keys
  show ?thesis by blast
qed

section \<open>Primitives first (C2)\<close>

text \<open>
  C2 says that in the result of \<^verbatim>\<open>reorderJsonKeys\<close> every key with a primitive value comes
  before every key with an object or array value. A key that is an array index keeps its
  place at the front of the object whatever its value is:
  \<^verbatim>\<open>JSON.parse('{"a":1,"0":{}}')\<close> has the own keys \<^verbatim>\<open>0\<close>, \<^verbatim>\<open>a\<close> in this order, and
  the result still has the container-valued key \<^verbatim>\<open>0\<close> before the primitive-valued
  key \<^verbatim>\<open>a\<close>.
\<close>

theorem reorder_index_key_stays_first:
  "reorderJsonKeys (JObj [(str ''0'', JObj []), (str ''a'', JNum (nat_number 1))])
     = JObj [(str ''0'', JObj []), (str ''a'', JNum (nat_number 1))]"
  by (simp add: object_eval)

text \<open>Apart from array indices (and the lost key of C1) the order is as C2 says.\<close>

text \<open>
  Primitives first: for an object whose keys are plain, the result of
  \<^verbatim>\<open>reorderJsonKeys\<close> has first the keys with primitive values, then the keys with object
  or array values, each group in its original relative order, the values of the second
  group reordered in turn.
\<close>

theorem primitives_first_for_plain_keys:
  assumes "distinct (own_keys ps)" and "list_all plain_key (own_keys ps)"
  shows "reorderJsonKeys (JObj ps) =
     JObj (filter (\<lambda>kv. \<not> is_object (snd kv)) ps @
           map (\<lambda>kv. (fst kv, reorderJsonKeys (snd kv))) (filter (\<lambda>kv. is_object (snd kv)) ps))"
proof -
  let ?buckets = "foldl (\<lambda>buckets kv.
      if is_object (snd kv)
      then (fst buckets, assign (snd buckets) (fst kv) (reorderJsonKeys (snd kv)))
      else (assign (fst buckets) (fst kv) (snd kv), snd buckets))
      (empty_object, empty_object) ps"
  let ?a = "filter (\<lambda>kv. \<not> is_object (snd kv)) ps"
  let ?b = "map (\<lambda>kv. (fst kv, reorderJsonKeys (snd kv))) (filter (\<lambda>kv. is_object (snd kv)) ps)"
  have plain: "list_all plain_key (map fst ps)" and dist: "distinct (map fst ps)"
    using assms by (simp_all add: own_keys_def)
  have "fst ?buckets = foldl (\<lambda>obj kv. if \<not> is_object (snd kv) then assign obj (fst kv) (snd kv) else obj) empty_object ps"
    by (rule buckets_fst [where G = "\<lambda>obj kv. assign obj (fst kv) (snd kv)"])
  then have primitives: "properties (fst ?buckets) = ?a"
    using foldl_assign_fresh [OF plain dist, of empty_object "\<lambda>kv. \<not> is_object (snd kv)" snd]
    by (simp add: empty_object_def)
  have "snd ?buckets = foldl (\<lambda>obj kv. if is_object (snd kv)
      then assign obj (fst kv) (reorderJsonKeys (snd kv)) else obj) empty_object ps"
    by (rule buckets_snd [where F = "\<lambda>obj kv. assign obj (fst kv) (reorderJsonKeys (snd kv))"])
  then have objects: "properties (snd ?buckets) = ?b"
    using foldl_assign_fresh [OF plain dist, of empty_object "\<lambda>kv. is_object (snd kv)"
        "\<lambda>kv. reorderJsonKeys (snd kv)"]
    by (simp add: empty_object_def)
  have "list_all plain_key (map fst (?a @ ?b))"
    using plain by (auto simp: list_all_iff)
  moreover have "distinct (map fst (?a @ ?b))"
    using dist by (auto simp: comp_def distinct_map_filter dest: eq_key_imp_eq_value)
  ultimately have "spread ?a ?b = ?a @ ?b"
    by (rule spread_plain)
  moreover have "reorderJsonKeys (JObj ps)
      = JObj (spread (properties (fst ?buckets)) (properties (snd ?buckets)))"
    by (simp add: Let_def)
  ultimately show ?thesis
    by (simp only: primitives objects)
qed

text \<open>The first scenario of the specification.\<close>

theorem primitives_first_for_plain_keys_witness:
  "distinct (own_keys [(str ''zeta'', JObj [(str ''nested'', JBool True)]),
       (str ''alpha'', JNum (nat_number 1)), (str ''beta'', JStr (str ''hello'')),
       (str ''gamma'', JArr [JNum (nat_number 1), JNum (nat_number 2)]), (str ''delta'', JNull)])
   \<and> list_all plain_key (own_keys [(str ''zeta'', JObj [(str ''nested'', JBool True)]),
       (str ''alpha'', JNum (nat_number 1)), (str ''beta'', JStr (str ''hello'')),
       (str ''gamma'', JArr [JNum (nat_number 1), JNum (nat_number 2)]), (str ''delta'', JNull)])
   \<and> reorderJsonKeys (JObj [(str ''zeta'', JObj [(str ''nested'', JBool True)]),
       (str ''alpha'', JNum (nat_number 1)), (str ''beta'', JStr (str ''hello'')),
       (str ''gamma'', JArr [JNum (nat_number 1), JNum (nat_number 2)]), (str ''delta'', JNull)])
     = JObj [(str ''alpha'', JNum (nat_number 1)), (str ''beta'', JStr (str ''hello'')),
       (str ''delta'', JNull), (str ''zeta'', JObj [(str ''nested'', JBool True)]),
       (str ''gamma'', JArr [JNum (nat_number 1), JNum (nat_number 2)])]"
proof -
  let ?ps = "[(str ''zeta'', JObj [(str ''nested'', JBool True)]),
       (str ''alpha'', JNum (nat_number 1)), (str ''beta'', JStr (str ''hello'')),
       (str ''gamma'', JArr [JNum (nat_number 1), JNum (nat_number 2)]), (str ''delta'', JNull)]"
  have keys: "distinct (own_keys ?ps)" "list_all plain_key (own_keys ?ps)"
    by (simp_all add: object_eval plain_key_def)
  have nested: "reorderJsonKeys (JObj [(str ''nested'', JBool True)]) = JObj [(str ''nested'', JBool True)]"
    by (simp add: object_eval)
  from primitives_first_for_plain_keys [OF keys] nested keys show ?thesis
    by simp
qed

section \<open>Custom order (C3)\<close>

text \<open>
  C3 says that whenever \<open>k1\<close> appears before \<open>k2\<close> in \<open>order\<close> and both are keys of the
  object, \<open>k1\<close> precedes \<open>k2\<close> in the result. With \<open>order = ["a", "b", "a"]\<close> the key
  \<^verbatim>\<open>b\<close> (at index 1) appears before \<^verbatim>\<open>a\<close> (at index 2), and the result has \<^verbatim>\<open>a\<close>
  before \<^verbatim>\<open>b\<close>: a key takes its place at its first occurrence.
\<close>

theorem custom_order_repeated_key:
  "[str ''a'', str ''b'', str ''a''] ! 1 = str ''b''
   \<and> [str ''a'', str ''b'', str ''a''] ! 2 = str ''a''
   \<and> applyCustomOrder (JObj [(str ''a'', JNum (nat_number 1)), (str ''b'', JNum (nat_number 2))])
       [str ''a'', str ''b'', str ''a'']
     = JObj [(str ''a'', JNum (nat_number 1)), (str ''b'', JNum (nat_number 2))]"
  by (simp add: object_eval)

text \<open>
  A key that is an array index is outside the custom order altogether: for
  \<^verbatim>\<open>JSON.parse('{"b":1,"0":2}')\<close>, whose own keys are \<^verbatim>\<open>0\<close>, \<^verbatim>\<open>b\<close>, and
  \<open>order = ["b"]\<close> the result has the unordered key \<^verbatim>\<open>0\<close> before \<^verbatim>\<open>b\<close>.
\<close>

lemma custom_order_index_key_stays_first:
  "applyCustomOrder (JObj [(str ''0'', JNum (nat_number 2)), (str ''b'', JNum (nat_number 1))])
       [str ''b'']
     = JObj [(str ''0'', JNum (nat_number 2)), (str ''b'', JNum (nat_number 1))]"
  by (simp add: object_eval)

text \<open>
  C3 as amended, for an object whose keys are plain: the result has first the keys named
  in \<open>order\<close> that the object has, in the order of their first occurrences in \<open>order\<close>
  (names that the object does not have are skipped), then the keys that \<open>order\<close> does
  not name, in their original relative order; and every key holds its original value
  reordered by \<^verbatim>\<open>applyCustomOrder\<close> with the same \<open>order\<close>, so the same holds in the nested
  objects with plain keys, at every depth.
\<close>

theorem custom_order_of_plain_keys:
  assumes "distinct (own_keys ps)" and "list_all plain_key (own_keys ps)"
  shows "applyCustomOrder (JObj ps) order =
     JObj (map (\<lambda>k. (k, applyCustomOrder (the (get_own ps k)) order))
            (filter (has_own ps) (first_occurrences order) @
             filter (\<lambda>k. k \<notin> set order) (own_keys ps)))"
proof -
  let ?h = "\<lambda>v. applyCustomOrder v order"
  let ?ordered = "foldl (\<lambda>ordered key.
      case get_own ps key of Some v \<Rightarrow> assign ordered key (?h v) | None \<Rightarrow> ordered)
      empty_object order"
  let ?remaining = "foldl (\<lambda>remaining kv.
      if fst kv \<notin> set order then assign remaining (fst kv) (?h (snd kv)) else remaining)
      empty_object ps"
  let ?a = "filter (has_own ps) (first_occurrences order)"
  let ?b = "filter (\<lambda>k. k \<notin> set order) (own_keys ps)"
  have h: "(if is_object v then applyCustomOrder v order else v) = ?h v" for v
    by (simp add: applyCustomOrder_primitive)
  have plain: "list_all plain_key (map fst ps)" and dist: "distinct (map fst ps)"
    using assms by (simp_all add: own_keys_def)
  have ordered: "properties ?ordered = map (\<lambda>k. (k, ?h (the (map_of ps k)))) ?a"
    using ordered_loop [OF plain, of empty_object ?h "[]" order]
    by (simp add: empty_object_def)
  have "properties ?remaining
      = map (\<lambda>kv. (fst kv, ?h (snd kv))) (filter (\<lambda>kv. fst kv \<notin> set order) ps)"
    using foldl_assign_fresh [OF plain dist, of empty_object "\<lambda>kv. fst kv \<notin> set order"
        "\<lambda>kv. ?h (snd kv)"]
    by (simp add: empty_object_def)
  also have "\<dots> = map (\<lambda>k. (k, ?h (the (map_of ps k))))
      (map fst (filter (\<lambda>kv. fst kv \<notin> set order) ps))"
    using dist by (intro map_values_by_key) auto
  also have "map fst (filter (\<lambda>kv. fst kv \<notin> set order) ps) = ?b"
    by (simp add: own_keys_def filter_map comp_def)
  finally have remaining: "properties ?remaining = map (\<lambda>k. (k, ?h (the (map_of ps k)))) ?b" .
  have keys: "map fst (properties ?ordered @ properties ?remaining) = ?a @ ?b"
    by (simp add: ordered remaining comp_def)
  have "set ?a \<subseteq> set (own_keys ps)"
    by (auto simp: has_own_def)
  then have "list_all plain_key (?a @ ?b)"
    using assms(2) by (auto simp: list_all_iff)
  moreover have "distinct (?a @ ?b)"
    using assms(1) by (auto simp: distinct_first_occurrences set_first_occurrences)
  ultimately have spread: "spread (properties ?ordered) (properties ?remaining)
      = properties ?ordered @ properties ?remaining"
    using keys by (intro spread_plain) simp_all
  have "applyCustomOrder (JObj ps) order
      = JObj (spread (properties ?ordered) (properties ?remaining))"
    by (simp add: h Let_def cong: option.case_cong if_cong)
  also have "\<dots> = JObj (properties ?ordered @ properties ?remaining)"
    by (simp only: spread)
  also have "\<dots> = JObj (map (\<lambda>k. (k, ?h (the (get_own ps k)))) (?a @ ?b))"
    unfolding ordered remaining by (simp add: get_own_def)
  finally show ?thesis .
qed


theorem custom_order_of_plain_keys_witness:
  "distinct (own_keys [(str ''name'', JStr (str ''Alice'')), (str ''id'', JNum (nat_number 1)),
                       (str ''role'', JObj [(str ''x'', JNull), (str ''id'', JNum (nat_number 2))])])
   \<and> list_all plain_key
        (own_keys [(str ''name'', JStr (str ''Alice'')), (str ''id'', JNum (nat_number 1)),
                   (str ''role'', JObj [(str ''x'', JNull), (str ''id'', JNum (nat_number 2))])])
   \<and> applyCustomOrder
        (JObj [(str ''name'', JStr (str ''Alice'')), (str ''id'', JNum (nat_number 1)),
               (str ''role'', JObj [(str ''x'', JNull), (str ''id'', JNum (nat_number 2))])])
        [str ''id'', str ''name'', str ''id'', str ''missing'']
     = JObj [(str ''id'', JNum (nat_number 1)), (str ''name'', JStr (str ''Alice'')),
             (str ''role'', JObj [(str ''id'', JNum (nat_number 2)), (str ''x'', JNull)])]"
proof -
  let ?ps = "[(str ''name'', JStr (str ''Alice'')), (str ''id'', JNum (nat_number 1)),
              (str ''role'', JObj [(str ''x'', JNull), (str ''id'', JNum (nat_number 2))])]"
  let ?order = "[str ''id'', str ''name'', str ''id'', str ''missing'']"
  have keys: "distinct (own_keys ?ps)" "list_all plain_key (own_keys ?ps)"
    by (simp_all add: object_eval plain_key_def)
  have first: "filter (has_own ?ps) (first_occurrences ?order) = [str ''id'', str ''name'']"
    by (simp add: object_eval)
  have others: "filter (\<lambda>k. k \<notin> set ?order) (own_keys ?ps) = [str ''role'']"
    by (simp add: object_eval)
  have nested: "applyCustomOrder (JObj [(str ''x'', JNull), (str ''id'', JNum (nat_number 2))]) ?order
      = JObj [(str ''id'', JNum (nat_number 2)), (str ''x'', JNull)]"
    by (simp add: object_eval)
  have "applyCustomOrder (JObj ?ps) ?order =
      JObj (map (\<lambda>k. (k, applyCustomOrder (the (get_own ?ps k)) ?order))
             [str ''id'', str ''name'', str ''role''])"
    using custom_order_of_plain_keys [OF keys, of ?order] by (simp only: first others append.simps)
  also have "\<dots> = JObj [(str ''id'', JNum (nat_number 1)), (str ''name'', JStr (str ''Alice'')),
      (str ''role'', JObj [(str ''id'', JNum (nat_number 2)), (str ''x'', JNull)])]"
    using nested by (simp add: get_own_def str_def)
  finally show ?thesis
    using keys by simp
qed

section \<open>Strings that do not percent-decode (C4)\<close>

text \<open>
  C4 says that a string whose percent-decoding fails is returned exactly as it is. Not
  always: the original string takes the place of the decoded one, and the look for
  embedded JSON still follows. The string \<^verbatim>\<open>["%"]\<close> does not decode, starts with
  \<^verbatim>\<open>[\<close> and parses, so the result is the array that it writes.
\<close>

theorem undecodable_string_is_unwrapped:
  "decodeURIComponent (str ''[\"%\"]'') = None
   \<and> decodeUriStrings (JStr (str ''[\"%\"]'')) 10 = JArr [JStr (str ''%'')]"
  by (simp add: object_eval string_eval parse_eval)

text \<open>
  C4 as amended: when the percent-decoding of a string fails, no exception escapes and
  nothing is decoded in part: the result is the original string, unless the budget is
  positive and the original string itself looks like JSON and parses, in which case the
  result is the parsed value, decoded with one unit less of budget.
\<close>

theorem undecodable_string_falls_back_to_original:
  "decodeURIComponent s = None \<Longrightarrow>
   decodeUriStrings (JStr s) maxDepth =
     (if 0 < maxDepth \<and> looks_like_json s
      then (case JSON_parse s of
              Some parsed \<Rightarrow> decodeUriStrings parsed (maxDepth - 1)
            | None \<Rightarrow> JStr s)
      else JStr s)"
  by (simp add: decoded_text_def)

theorem undecodable_string_falls_back_to_original_witness:
  "decodeURIComponent (str ''%ZZ'') = None
   \<and> decodeUriStrings (JStr (str ''%ZZ'')) 10 = JStr (str ''%ZZ'')"
proof -
  have fails: "decodeURIComponent (str ''%ZZ'') = None"
    by (simp add: object_eval string_eval)
  have plain: "\<not> looks_like_json (str ''%ZZ'')"
    by (simp add: object_eval string_eval)
  from undecodable_string_falls_back_to_original [OF fails, of 10] plain fails
  show ?thesis by simp
qed

section \<open>The depth budget (C5)\<close>

lemma foldl_max_bound: "a \<le> b \<Longrightarrow> (\<And>x. x \<in> set xs \<Longrightarrow> x \<le> b) \<Longrightarrow> foldl max a xs \<le> (b::nat)"
  by (induction xs arbitrary: a) auto

lemma unwraps_bound: "int (unwraps obj maxDepth) \<le> max 0 maxDepth"
proof (induction obj maxDepth rule: unwraps.induct)
  case (2 s maxDepth)
  show ?case
  proof (cases "0 < maxDepth \<and> looks_like_json (decoded_text s)")
    case False
    then show ?thesis by (auto simp: Let_def)
  next
    case True
    show ?thesis
    proof (cases "JSON_parse (decoded_text s)")
      case None
      with True show ?thesis by (simp add: Let_def)
    next
      case (Some parsed)
      from True have "\<not> maxDepth \<le> 0" by simp
      from "2.IH" [OF this refl _ Some] True
      have "int (unwraps parsed (maxDepth - 1)) \<le> max 0 (maxDepth - 1)" by simp
      with True Some show ?thesis by (simp add: Let_def)
    qed
  qed
next
  case (3 xs maxDepth)
  show ?case
  proof (cases "maxDepth \<le> 0")
    case True
    then show ?thesis by simp
  next
    case False
    have "foldl max 0 (map (\<lambda>item. unwraps item maxDepth) xs) \<le> nat maxDepth"
      using 3 False by (intro foldl_max_bound) (auto simp: le_nat_iff)
    with False show ?thesis by simp
  qed
next
  case (4 ps maxDepth)
  show ?case
  proof (cases "maxDepth \<le> 0")
    case True
    then show ?thesis by simp
  next
    case False
    have "foldl max 0 (map (\<lambda>kv. unwraps (snd kv) maxDepth) ps) \<le> nat maxDepth"
      using 4 False by (intro foldl_max_bound) (auto simp: le_nat_iff)
    with False show ?thesis by simp
  qed
qed simp_all

lemma decode_exhausted: "maxDepth \<le> 0 \<Longrightarrow> decodeUriStrings obj maxDepth = obj"
  by (cases obj) simp_all

text \<open>
  C5: with \<open>maxDepth \<le> 0\<close> the value comes back unchanged, a string included. The
  recursion is total (its termination proof orders the calls by the budget, then by the
  size of the value). The budget drops by one exactly in the call on a parsed embedded
  JSON value, and stays as it is in the calls on the elements of an array, on the values
  of an object, and when a string is only percent-decoded; so no path of the recursion
  holds more than \<open>maxDepth\<close> unwraps.
\<close>

theorem depth_budget:
  "(maxDepth \<le> 0 \<longrightarrow> decodeUriStrings obj maxDepth = obj)
   \<and> int (unwraps obj maxDepth) \<le> max 0 maxDepth
   \<and> (0 < maxDepth \<longrightarrow>
        decodeUriStrings (JArr xs) maxDepth = JArr (map (\<lambda>item. decodeUriStrings item maxDepth) xs)
      \<and> decodeUriStrings (JObj record) maxDepth =
          JObj (properties (foldl (\<lambda>result kv.
            assign result (fst kv) (decodeUriStrings (snd kv) maxDepth)) empty_object record))
      \<and> (\<not> looks_like_json (decoded_text s) \<longrightarrow>
            decodeUriStrings (JStr s) maxDepth = JStr (decoded_text s))
      \<and> (looks_like_json (decoded_text s) \<and> JSON_parse (decoded_text s) = None \<longrightarrow>
            decodeUriStrings (JStr s) maxDepth = JStr (decoded_text s))
      \<and> (looks_like_json (decoded_text s) \<and> JSON_parse (decoded_text s) = Some parsed \<longrightarrow>
            decodeUriStrings (JStr s) maxDepth = decodeUriStrings parsed (maxDepth - 1)
          \<and> unwraps (JStr s) maxDepth = Suc (unwraps parsed (maxDepth - 1))))"
  using unwraps_bound [of obj maxDepth] decode_exhausted [of maxDepth obj]
  by (simp add: Let_def)

text \<open>
  The string \<^verbatim>\<open>["[1]"]\<close> holds JSON inside JSON. With budget 0 it is returned as it is;
  with budget 1 only the outer layer is unwrapped; with budget 2 both are.
\<close>

theorem depth_budget_witness:
  "decodeUriStrings (JStr (str ''[\"[1]\"]'')) 0 = JStr (str ''[\"[1]\"]'')
   \<and> decodeUriStrings (JStr (str ''[\"[1]\"]'')) 1 = JArr [JStr (str ''[1]'')]
   \<and> decodeUriStrings (JStr (str ''[\"[1]\"]'')) 2 = JArr [JArr [JNum (nat_number 1)]]
   \<and> unwraps (JStr (str ''[\"[1]\"]'')) 1 = 1
   \<and> unwraps (JStr (str ''[\"[1]\"]'')) 2 = 2"
proof -
  let ?s = "str ''[\"[1]\"]''"
  have looks: "looks_like_json (decoded_text ?s)"
    by (simp add: object_eval string_eval)
  have parsed: "JSON_parse (decoded_text ?s) = Some (JArr [JStr (str ''[1]'')])"
    by (simp add: object_eval string_eval parse_eval)
  have inner0: "decodeUriStrings (JArr [JStr (str ''[1]'')]) 0 = JArr [JStr (str ''[1]'')]"
    by simp
  have inner1: "decodeUriStrings (JArr [JStr (str ''[1]'')]) 1 = JArr [JArr [JNum (nat_number 1)]]"
    by (simp add: object_eval string_eval parse_eval)
  have count0: "unwraps (JArr [JStr (str ''[1]'')]) 0 = 0"
    by simp
  have count1: "unwraps (JArr [JStr (str ''[1]'')]) 1 = 1"
    by (simp add: object_eval string_eval parse_eval)
  from depth_budget [of 0 "JStr ?s"]
  have "decodeUriStrings (JStr ?s) 0 = JStr ?s" by simp
  moreover from depth_budget [of 1 "JStr ?s" "[]" "[]" ?s "JArr [JStr (str ''[1]'')]"] looks parsed
  have "decodeUriStrings (JStr ?s) 1 = decodeUriStrings (JArr [JStr (str ''[1]'')]) 0
      \<and> unwraps (JStr ?s) 1 = Suc (unwraps (JArr [JStr (str ''[1]'')]) 0)"
    by simp
  moreover from depth_budget [of 2 "JStr ?s" "[]" "[]" ?s "JArr [JStr (str ''[1]'')]"] looks parsed
  have "decodeUriStrings (JStr ?s) 2 = decodeUriStrings (JArr [JStr (str ''[1]'')]) 1
      \<and> unwraps (JStr ?s) 2 = Suc (unwraps (JArr [JStr (str ''[1]'')]) 1)"
    by simp
  ultimately show ?thesis
    using inner0 inner1 count0 count1 by simp
qed

section \<open>What decoding leaves alone (C6)\<close>

text \<open>
  C6 says that \<^verbatim>\<open>decodeUriStrings\<close> alters string leaves only and that every object keeps
  its keys and their order. The code loses the key \<^verbatim>\<open>__proto__\<close>: for
  \<^verbatim>\<open>JSON.parse('{"__proto__":1,"a":"%41"}')\<close> the result is \<^verbatim>\<open>{"a":"A"}\<close>, because the
  result object is filled by the assignment \<^verbatim>\<open>result[key] = ...\<close>.
\<close>

theorem decoding_loses_proto_key:
  "decodeUriStrings
     (JObj [(str ''__proto__'', JNum (nat_number 1)), (str ''a'', JStr (str ''%41''))]) 10
     = JObj [(str ''a'', JStr (str ''A''))]"
  by (simp add: object_eval string_eval)

text \<open>Apart from that key the transform alters string leaves only.\<close>

text \<open>
  Data parity of \<^verbatim>\<open>decodeUriStrings\<close>: \<^verbatim>\<open>null\<close>, booleans and numbers come back as they
  are, an array keeps its length and the order of its elements, whatever the budget is.
\<close>

theorem decoding_leaves_non_strings:
  "decodeUriStrings JNull maxDepth = JNull
   \<and> decodeUriStrings (JBool b) maxDepth = JBool b
   \<and> decodeUriStrings (JNum n) maxDepth = JNum n
   \<and> decodeUriStrings (JArr xs) maxDepth = JArr (map (\<lambda>item. decodeUriStrings item maxDepth) xs)"
  by (simp add: decode_exhausted)

text \<open>
  And an object in own-property order that has no key \<^verbatim>\<open>__proto__\<close> keeps its keys and
  their order (array indices included), every value decoded with the same budget.
\<close>

theorem decoding_keeps_keys_and_order:
  assumes "own_property_order ps" and "\<not> has_own ps (str ''__proto__'')" and "0 < maxDepth"
  shows "decodeUriStrings (JObj ps) maxDepth =
     JObj (map (\<lambda>kv. (fst kv, decodeUriStrings (snd kv) maxDepth)) ps)"
proof -
  let ?h = "\<lambda>kv. decodeUriStrings (snd kv) maxDepth"
  let ?dp = "foldl (\<lambda>qs kv. define_property qs (fst kv) (snd kv))"
  let ?target = "map (\<lambda>kv. (fst kv, ?h kv)) ps"
  have proto: "str ''__proto__'' \<notin> fst ` set ps"
    using assms(2) by (simp add: own_keys_def has_own_def)
  have dist: "distinct (map fst ps)"
    using assms(1) by (rule own_property_order_distinct)
  have order: "?dp [] ps = ps"
    using assms(1) by (simp add: own_property_order_def spread_def)
  have result: "properties (foldl (\<lambda>result kv. assign result (fst kv) (?h kv)) empty_object ps)
      = ?dp [] ?target"
    using foldl_assign_define [OF proto, of "\<lambda>kv. True" ?h empty_object]
    by (simp add: empty_object_def)
  have "map fst (?dp [] ?target) = map fst (?dp [] ps)"
    by (rule keys_define_all) (simp_all add: comp_def)
  then have keys: "map fst (?dp [] ?target) = map fst ?target"
    by (simp add: order comp_def)
  have "map_of (?dp [] ?target) = map_of (rev ?target)"
    by (rule map_of_define_fresh)
  also have "\<dots> = map_of ?target"
    using dist by (intro map_of_rev_distinct) (simp add: comp_def)
  finally have "?dp [] ?target = ?target"
    using keys distinct_define_fresh [of ?target] by (intro same_keys_same_values)
  with result assms(3) show ?thesis by simp
qed

theorem decoding_keeps_keys_and_order_witness:
  "own_property_order [(str ''0'', JStr (str ''%41'')), (str ''10'', JNull), (str ''b'', JObj []),
                       (str ''a'', JNum (nat_number 1))]
   \<and> \<not> has_own [(str ''0'', JStr (str ''%41'')), (str ''10'', JNull), (str ''b'', JObj []),
                   (str ''a'', JNum (nat_number 1))] (str ''__proto__'')
   \<and> decodeUriStrings (JObj [(str ''0'', JStr (str ''%41'')), (str ''10'', JNull),
                              (str ''b'', JObj []), (str ''a'', JNum (nat_number 1))]) 10
     = JObj [(str ''0'', JStr (str ''A'')), (str ''10'', JNull), (str ''b'', JObj []),
             (str ''a'', JNum (nat_number 1))]"
proof -
  let ?ps = "[(str ''0'', JStr (str ''%41'')), (str ''10'', JNull), (str ''b'', JObj []),
              (str ''a'', JNum (nat_number 1))]"
  have keys: "own_property_order ?ps" "\<not> has_own ?ps (str ''__proto__'')"
    by (simp_all add: own_property_order_def object_eval)
  have budget: "(0::int) < 10" by simp
  have leaf: "decodeUriStrings (JStr (str ''%41'')) 10 = JStr (str ''A'')"
    by (simp add: object_eval string_eval)
  have empty: "decodeUriStrings (JObj []) 10 = JObj []"
    by (simp add: empty_object_def)
  have "decodeUriStrings (JObj ?ps) 10
      = JObj (map (\<lambda>kv. (fst kv, decodeUriStrings (snd kv) 10)) ?ps)"
    using keys budget by (rule decoding_keeps_keys_and_order)
  also have "\<dots> = JObj [(str ''0'', JStr (str ''A'')), (str ''10'', JNull), (str ''b'', JObj []),
      (str ''a'', JNum (nat_number 1))]"
    by (simp only: list.map fst_conv snd_conv leaf empty decodeUriStrings.simps(1,6))
  finally show ?thesis
    using keys by simp
qed

section \<open>Path segments on arrays (C7)\<close>

lemma split_dot_nonempty: "split_dot s \<noteq> []"
  by (cases s) auto

lemma split_dot_segment: "46 \<notin> set k \<Longrightarrow> split_dot k = [k]"
  by (induction k) auto

lemma split_dot_append: "split_dot (path @ 46 # k) = split_dot path @ split_dot k"
  by (induction path) (auto simp: split_dot_nonempty)

lemma walk_NotFound: "walk NotFound keys = NotFound"
  by (cases keys) auto

lemma walk_Thrown: "walk Thrown keys = Thrown"
  by (cases keys) auto

lemma walk_append: "walk current (keys @ keys') = walk (walk current keys) keys'"
  by (induction current keys rule: walk.induct) (simp_all add: walk_NotFound walk_Thrown)

lemma getNestedValue_segment:
  "46 \<notin> set k \<Longrightarrow> getNestedValue (JArr xs) k = member (JArr xs) k"
  by (simp add: getNestedValue_def split_dot_segment)

lemma getNestedValue_next_segment:
  "getNestedValue obj path = Found (JArr xs) \<Longrightarrow> 46 \<notin> set k \<Longrightarrow>
   getNestedValue obj (path @ 46 # k) = member (JArr xs) k"
  by (simp add: getNestedValue_def split_dot_append walk_append split_dot_segment)

lemma methods_None: "(methods table k = None) = (k \<notin> set (map (\<lambda>e. str (fst e)) table))"
  unfolding methods_def by (simp add: map_of_eq_None_iff image_image)

lemma methods_Some:
  "k \<in> set (map (\<lambda>e. str (fst e)) table) \<Longrightarrow>
   \<exists>n. methods table k = Some (Holds (Library (Method k n)))"
  using methods_None [of table k] unfolding methods_def by auto

text \<open>
  What an array inherits under a name other than \<^verbatim>\<open>length\<close>: a method of
  \<^verbatim>\<open>Array.prototype\<close>, its \<^verbatim>\<open>constructor\<close>, or what \<^verbatim>\<open>Object.prototype\<close> has under
  that name; nothing under any other name.
\<close>

lemma inherited_by_arrays:
  assumes "k \<noteq> str ''length''"
  shows "(k \<in> set array_prototype \<or> k \<in> set object_prototype \<longrightarrow>
            (\<exists>l. inherited ArrayKind k = Library l))
       \<and> (k \<notin> set array_prototype \<and> k \<notin> set object_prototype \<longrightarrow>
            inherited ArrayKind k = NotFound)"
proof (cases "k = str ''constructor''")
  case True
  then show ?thesis by (simp add: inherited_def object_prototype_def)
next
  case other: False
  show ?thesis
  proof (cases "k \<in> set array_prototype")
    case True
    then obtain n where "methods array_methods k = Some (Holds (Library (Method k n)))"
      unfolding array_prototype_def using methods_Some by blast
    with True other assms show ?thesis by (simp add: inherited_def)
  next
    case no_array: False
    then have none: "methods array_methods k = None"
      unfolding array_prototype_def by (simp only: methods_None not_False_eq_True)
    show ?thesis
    proof (cases "k = str ''__proto__''")
      case True
      with none other assms show ?thesis by (simp add: inherited_def object_prototype_def)
    next
      case no_proto: False
      show ?thesis
      proof (cases "k \<in> set (map (\<lambda>e. str (fst e)) object_methods)")
        case True
        then obtain n where "methods object_methods k = Some (Holds (Library (Method k n)))"
          using methods_Some by blast
        with True none other no_proto assms show ?thesis
          by (simp add: inherited_def object_prototype_def)
      next
        case False
        then have "methods object_methods k = None"
          by (simp only: methods_None not_False_eq_True)
        with False none other no_proto no_array assms show ?thesis
          by (simp add: inherited_def object_prototype_def)
      qed
    qed
  qed
qed

lemma index_not_inherited:
  "array_index k = Some i \<Longrightarrow> inherited ArrayKind k = NotFound"
proof -
  assume "array_index k = Some i"
  then have k: "k \<noteq> [] \<and> is_digit (hd k)"
    unfolding array_index_def by (cases k) (auto split: if_splits)
  have "\<forall>n \<in> set (str ''length'' # array_prototype @ object_prototype).
          \<not> (n \<noteq> [] \<and> is_digit (hd n))"
    by (simp add: array_prototype_def object_prototype_def array_methods_def object_methods_def
        str_def is_digit_def)
  with k have "k \<noteq> str ''length'' \<and> k \<notin> set array_prototype \<and> k \<notin> set object_prototype"
    by auto
  then show ?thesis
    using inherited_by_arrays [of k] by blast
qed

text \<open>
  C7 says that on an array a segment that parses as a non-negative integer indexes into
  the array, and that every non-numeric segment yields \<^verbatim>\<open>undefined\<close>. The code looks the
  segment up as a member name: \<^verbatim>\<open>length\<close> is not numeric and yields the length of the
  array; \<^verbatim>\<open>01\<close> parses as the integer 1 and indexes nothing, since only the canonical
  form \<^verbatim>\<open>1\<close> is the name of the element; and \<^verbatim>\<open>map\<close> yields the method that arrays
  inherit, a function of one parameter.
\<close>

theorem array_segments_are_member_names:
  "getNestedValue (JArr [JNum (nat_number 1), JNum (nat_number 2)]) (str ''length'')
     = Found (JNum (nat_number 2))
   \<and> getNestedValue (JArr [JNum (nat_number 1), JNum (nat_number 2)]) (str ''01'') = NotFound
   \<and> getNestedValue (JArr [JNum (nat_number 1), JNum (nat_number 2)]) (str ''1'')
     = Found (JNum (nat_number 2))
   \<and> getNestedValue (JArr [JNum (nat_number 1), JNum (nat_number 2)]) (str ''map'')
     = Library (Method (str ''map'') 1)"
  by (simp add: object_eval filter_eval)

text \<open>
  C7 as amended: when the value reached so far is an array (the root itself, or the
  value that a path resolves to) and \<open>k\<close> is the next segment: if \<open>k\<close> is an array index
  (the canonical decimal form of an integer) below the length of the array, the result
  is that element, and \<^verbatim>\<open>undefined\<close> if it is not below the length; \<^verbatim>\<open>length\<close> yields the
  length; any other segment yields \<^verbatim>\<open>undefined\<close>, unless it names a member that arrays
  inherit from their prototypes.
\<close>

theorem array_member_lookup:
  assumes "getNestedValue obj path = Found (JArr xs) \<and> key = path @ 46 # k
           \<or> obj = JArr xs \<and> key = k"
    and "46 \<notin> set k"
  shows "(\<forall>i. array_index k = Some i \<and> i < length xs \<longrightarrow>
            getNestedValue obj key = Found (xs ! i))
       \<and> (\<forall>i. array_index k = Some i \<and> length xs \<le> i \<longrightarrow>
            getNestedValue obj key = NotFound)
       \<and> (k = str ''length'' \<longrightarrow>
            getNestedValue obj key = Found (JNum (nat_number (length xs))))
       \<and> (array_index k = None \<and> k \<noteq> str ''length'' \<longrightarrow>
            (if k \<in> set array_prototype \<or> k \<in> set object_prototype
             then \<exists>l. getNestedValue obj key = Library l
             else getNestedValue obj key = NotFound))"
proof -
  have m: "getNestedValue obj key = member (JArr xs) k"
    using assms getNestedValue_next_segment getNestedValue_segment by blast
  have len: "array_index (str ''length'') = None"
    by (simp add: object_eval)
  have "\<forall>i. array_index k = Some i \<and> i < length xs \<longrightarrow> member (JArr xs) k = Found (xs ! i)"
    by simp
  moreover have "\<forall>i. array_index k = Some i \<and> length xs \<le> i \<longrightarrow> member (JArr xs) k = NotFound"
    by (simp add: index_not_inherited)
  moreover have "k = str ''length'' \<longrightarrow> member (JArr xs) k = Found (JNum (nat_number (length xs)))"
    by (simp add: len)
  moreover have "array_index k = None \<and> k \<noteq> str ''length'' \<longrightarrow>
      (if k \<in> set array_prototype \<or> k \<in> set object_prototype
       then \<exists>l. member (JArr xs) k = Library l
       else member (JArr xs) k = NotFound)"
    using inherited_by_arrays [of k] by auto
  ultimately show ?thesis
    unfolding m by blast
qed


theorem array_member_lookup_witness:
  "getNestedValue (JObj [(str ''user'', JObj [(str ''tags'', JArr [JStr (str ''x''), JNull])])])
       (str ''user.tags'') = Found (JArr [JStr (str ''x''), JNull])
   \<and> 46 \<notin> set (str ''0'')
   \<and> array_index (str ''0'') = Some 0
   \<and> getNestedValue (JObj [(str ''user'', JObj [(str ''tags'', JArr [JStr (str ''x''), JNull])])])
       (str ''user.tags.0'') = Found (JStr (str ''x''))"
proof -
  let ?obj = "JObj [(str ''user'', JObj [(str ''tags'', JArr [JStr (str ''x''), JNull])])]"
  have reached: "getNestedValue ?obj (str ''user.tags'') = Found (JArr [JStr (str ''x''), JNull])"
    by (simp add: object_eval filter_eval)
  have key: "str ''user.tags.0'' = str ''user.tags'' @ 46 # str ''0''"
    by (simp add: str_def)
  have segment: "46 \<notin> set (str ''0'')"
    by (simp add: str_def)
  have index: "array_index (str ''0'') = Some 0"
    by (simp add: object_eval)
  from array_member_lookup [of ?obj "str ''user.tags''" "[JStr (str ''x''), JNull]"
      "str ''user.tags.0''" "str ''0''"] reached key segment index
  have "getNestedValue ?obj (str ''user.tags.0'') = Found ([JStr (str ''x''), JNull] ! 0)"
    by blast
  with reached segment index show ?thesis by simp
qed

section \<open>The lines that \<^verbatim>\<open>filterLines\<close> returns (C8)\<close>

lemma filter_line_cases:
  "filter_line filters line = (if passes filters (trim line) then Some (trim line) else None)"
  unfolding filter_line_def passes_def Let_def
  by (auto simp: JSON_parse_empty split: option.splits sum.splits failure.splits)

lemma filterLines_loop_result:
  "filterLines_loop lines filters result = result @ filter (passes filters) (map trim lines)"
  by (induction lines arbitrary: result) (auto simp: filter_line_cases)

text \<open>
  C8: for every list of lines and every list of filters, \<^verbatim>\<open>filterLines\<close> returns the
  trimmed text of exactly the lines that pass, in their original order, each as often as
  it occurs. Blank lines, lines that do not parse, lines that fail a filter and lines on
  which a lookup or the conversion to a string throws are dropped, and no error leaves
  the function: its result is always a list.
\<close>

theorem filterLines_returns_the_passing_lines:
  "filterLines lines filters = filter (passes filters) (map trim lines)"
  unfolding filterLines_def by (simp add: filterLines_loop_result)

text \<open>
  Six lines under the filter \<^verbatim>\<open>status = active\<close>: a padded match, a blank line, a line
  that is not JSON, a line with another status, a line whose status is an object that
  cannot be converted to a string, and the first line once more. The first and the last
  pass, trimmed. A filter on \<^verbatim>\<open>constructor\<close> reaches the function \<^verbatim>\<open>Object\<close>, whose
  text is compared like any other; the \<^verbatim>\<open>name\<close> of that function is \<^verbatim>\<open>Object\<close>. The
  number \<^verbatim>\<open>9007199254740993\<close> is compared as the double that it is read as.
\<close>

theorem filterLines_returns_the_passing_lines_witness:
  "filterLines
     [str ''  {\"id\":1,\"status\":\"active\"}  '', str '' '', str ''not json'',
      str ''{\"id\":2,\"status\":\"inactive\"}'', str ''{\"status\":{\"toString\":1}}'',
      str ''{\"id\":1,\"status\":\"active\"}'']
     [\<lparr>filter_key = str ''status'', filter_value = str ''active''\<rparr>]
     = [str ''{\"id\":1,\"status\":\"active\"}'', str ''{\"id\":1,\"status\":\"active\"}'']
   \<and> filter (passes [\<lparr>filter_key = str ''status'', filter_value = str ''active''\<rparr>])
       (map trim
         [str ''  {\"id\":1,\"status\":\"active\"}  '', str '' '', str ''not json'',
          str ''{\"id\":2,\"status\":\"inactive\"}'', str ''{\"status\":{\"toString\":1}}'',
          str ''{\"id\":1,\"status\":\"active\"}''])
     = [str ''{\"id\":1,\"status\":\"active\"}'', str ''{\"id\":1,\"status\":\"active\"}'']
   \<and> filterLines [str ''{\"a\":1}'']
       [\<lparr>filter_key = str ''constructor'', filter_value = str ''Object''\<rparr>] = []
   \<and> filterLines [str ''{\"a\":1}'']
       [\<lparr>filter_key = str ''constructor.name'', filter_value = str ''Object''\<rparr>]
     = [str ''{\"a\":1}'']
   \<and> filterLines [str ''{\"n\":9007199254740993}'']
       [\<lparr>filter_key = str ''n'', filter_value = str ''9007199254740992''\<rparr>]
     = [str ''{\"n\":9007199254740993}'']"
proof -
  let ?lines = "[str ''  {\"id\":1,\"status\":\"active\"}  '', str '' '', str ''not json'',
      str ''{\"id\":2,\"status\":\"inactive\"}'', str ''{\"status\":{\"toString\":1}}'',
      str ''{\"id\":1,\"status\":\"active\"}'']"
  let ?filters = "[\<lparr>filter_key = str ''status'', filter_value = str ''active''\<rparr>]"
  have run: "filterLines ?lines ?filters
      = [str ''{\"id\":1,\"status\":\"active\"}'', str ''{\"id\":1,\"status\":\"active\"}'']"
    by (simp add: object_eval string_eval parse_eval filter_eval)
  have reached: "filterLines [str ''{\"a\":1}'']
      [\<lparr>filter_key = str ''constructor'', filter_value = str ''Object''\<rparr>] = []"
    by (simp add: object_eval string_eval parse_eval filter_eval)
  have named: "filterLines [str ''{\"a\":1}'']
      [\<lparr>filter_key = str ''constructor.name'', filter_value = str ''Object''\<rparr>]
      = [str ''{\"a\":1}'']"
    by (simp add: object_eval string_eval parse_eval filter_eval)
  have rounded: "filterLines [str ''{\"n\":9007199254740993}'']
      [\<lparr>filter_key = str ''n'', filter_value = str ''9007199254740992''\<rparr>]
      = [str ''{\"n\":9007199254740993}'']"
    by (simp add: object_eval string_eval parse_eval filter_eval)
  from filterLines_returns_the_passing_lines [of ?lines ?filters] run
  have "filter (passes ?filters) (map trim ?lines)
      = [str ''{\"id\":1,\"status\":\"active\"}'', str ''{\"id\":1,\"status\":\"active\"}'']"
    by simp
  with run reached named rounded show ?thesis by simp
qed

section \<open>Custom order wins, decoding runs last (C9)\<close>

text \<open>
  C9: when \<open>customOrder\<close> is not empty, \<^verbatim>\<open>update\<close> applies \<^verbatim>\<open>applyCustomOrder\<close> and not
  the automatic reordering, whatever \<open>reorderKeys\<close> says; the automatic reordering runs
  only for an empty \<open>customOrder\<close>; and when \<open>uriDecode\<close> is set, \<^verbatim>\<open>decodeUriStrings\<close>
  (with its default budget 10) is applied to the tree that the reordering returned.
\<close>

theorem custom_order_wins_and_decoding_runs_last:
  "(customOrder state \<noteq> [] \<longrightarrow>
      transform state parsed =
        (if uriDecode state
         then decodeUriStrings (applyCustomOrder parsed (customOrder state)) 10
         else applyCustomOrder parsed (customOrder state)))
   \<and> (customOrder state = [] \<and> reorderKeys state \<longrightarrow>
      transform state parsed =
        (if uriDecode state then decodeUriStrings (reorderJsonKeys parsed) 10
         else reorderJsonKeys parsed))
   \<and> (customOrder state = [] \<and> \<not> reorderKeys state \<longrightarrow>
      transform state parsed =
        (if uriDecode state then decodeUriStrings parsed 10 else parsed))
   \<and> (JSON_parse (trim line) = Some parsed \<longrightarrow>
      update state line = Shown (transform state parsed))"
  by (auto simp: transform_def update_def Let_def JSON_parse_empty)

text \<open>
  On the line \<^verbatim>\<open>{"z":{"y":"%41"},"a":1}\<close> with \<open>customOrder = ["z"]\<close>, \<open>reorderKeys\<close> and
  \<open>uriDecode\<close> set: the container \<^verbatim>\<open>z\<close> stays first (the automatic reordering would
  move \<^verbatim>\<open>a\<close> before it), and the string is decoded.
\<close>

theorem custom_order_wins_and_decoding_runs_last_witness:
  "customOrder \<lparr>reorderKeys = True, wordWrap = False, uriDecode = True,
                 customOrder = [str ''z''], activeFilters = []\<rparr> \<noteq> []
   \<and> update \<lparr>reorderKeys = True, wordWrap = False, uriDecode = True,
               customOrder = [str ''z''], activeFilters = []\<rparr>
        (str '' {\"z\":{\"y\":\"%41\"},\"a\":1} '')
     = Shown (JObj [(str ''z'', JObj [(str ''y'', JStr (str ''A''))]),
                    (str ''a'', JNum (nat_number 1))])
   \<and> reorderJsonKeys (JObj [(str ''z'', JObj [(str ''y'', JStr (str ''%41''))]),
                           (str ''a'', JNum (nat_number 1))])
     = JObj [(str ''a'', JNum (nat_number 1)),
             (str ''z'', JObj [(str ''y'', JStr (str ''%41''))])]"
proof -
  let ?state = "\<lparr>reorderKeys = True, wordWrap = False, uriDecode = True,
                 customOrder = [str ''z''], activeFilters = []\<rparr>"
  let ?line = "str '' {\"z\":{\"y\":\"%41\"},\"a\":1} ''"
  let ?parsed = "JObj [(str ''z'', JObj [(str ''y'', JStr (str ''%41''))]),
                       (str ''a'', JNum (nat_number 1))]"
  have parsed: "JSON_parse (trim ?line) = Some ?parsed"
    by (simp add: object_eval string_eval parse_eval)
  have custom: "applyCustomOrder ?parsed [str ''z''] = ?parsed"
    by (simp add: object_eval)
  have decoded: "decodeUriStrings ?parsed 10
      = JObj [(str ''z'', JObj [(str ''y'', JStr (str ''A''))]), (str ''a'', JNum (nat_number 1))]"
    by (simp add: object_eval string_eval parse_eval)
  have reordered: "reorderJsonKeys ?parsed
      = JObj [(str ''a'', JNum (nat_number 1)),
              (str ''z'', JObj [(str ''y'', JStr (str ''%41''))])]"
    by (simp add: object_eval)
  from custom_order_wins_and_decoding_runs_last [of ?state ?parsed ?line] parsed
  have "update ?state ?line = Shown (decodeUriStrings (applyCustomOrder ?parsed [str ''z'']) 10)"
    by simp
  with custom decoded reordered show ?thesis by simp
qed

section \<open>Filters on arrays and objects (C10)\<close>

lemma join_comma_throws: "Inl e \<in> set ys \<Longrightarrow> join_comma ys = Inl TypeError"
proof (induction ys rule: join_comma.induct)
  case 1
  then show ?case by simp
next
  case (2 x)
  then show ?case by (cases e) simp
next
  case (3 x y ys)
  show ?case
  proof (cases x)
    case (Inl a)
    then show ?thesis by (cases a) simp
  next
    case (Inr s)
    with 3 show ?thesis by auto
  qed
qed

lemma array_holding_toString_throws:
  "JObj ps \<in> set xs \<Longrightarrow> has_own ps (str ''toString'') \<Longrightarrow> ToString (JArr xs) = Inl TypeError"
proof -
  assume holds: "JObj ps \<in> set xs" and own: "has_own ps (str ''toString'')"
  let ?string = "\<lambda>x. if x = JNull then Inr [] else ToString x"
  from own have "?string (JObj ps) = Inl TypeError"
    by simp
  moreover from holds have "?string (JObj ps) \<in> ?string ` set xs"
    by (rule imageI)
  ultimately have "Inl TypeError \<in> set (map ?string xs)"
    by simp
  then show ?thesis
    by (simp add: join_comma_throws)
qed

lemma throwing_line_is_dropped:
  "JSON_parse (trim line) = Some json \<Longrightarrow> matchesAllFilters json filters = Inl TypeError \<Longrightarrow>
   filter_line filters line = None"
  unfolding filter_line_def Let_def by (auto simp: JSON_parse_empty)

text \<open>
  C10 says that a resolved plain object satisfies a filter exactly when the filter value
  is \<^verbatim>\<open>[object Object]\<close>. An object with an own key \<^verbatim>\<open>toString\<close> never does: for
  \<^verbatim>\<open>{"a":{"toString":1}}\<close> and the filter \<^verbatim>\<open>a = [object Object]\<close> the conversion
  \<^verbatim>\<open>String(value)\<close> throws a TypeError, and \<^verbatim>\<open>matchesAllFilters\<close> with it;
  \<^verbatim>\<open>filterLines\<close> drops the line.
\<close>

theorem object_with_own_toString_throws:
  "getNestedValue (JObj [(str ''a'', JObj [(str ''toString'', JNum (nat_number 1))])]) (str ''a'')
     = Found (JObj [(str ''toString'', JNum (nat_number 1))])
   \<and> matchesAllFilters (JObj [(str ''a'', JObj [(str ''toString'', JNum (nat_number 1))])])
       [\<lparr>filter_key = str ''a'', filter_value = str ''[object Object]''\<rparr>]
     = Inl TypeError
   \<and> JSON_parse (str ''{\"a\":{\"toString\":1}}'')
     = Some (JObj [(str ''a'', JObj [(str ''toString'', JNum (nat_number 1))])])
   \<and> filterLines [str ''{\"a\":{\"toString\":1}}'']
       [\<lparr>filter_key = str ''a'', filter_value = str ''[object Object]''\<rparr>] = []"
  by (simp add: object_eval string_eval parse_eval filter_eval)

text \<open>
  C10 as amended: a filter whose path resolves to a container is decided by
  \<^verbatim>\<open>String(value)\<close>. For an array that is the comma-joined strings of its elements
  (\<^verbatim>\<open>null\<close> elements give the empty string, nested arrays are joined in turn), and the
  filter is satisfied exactly when its value equals that string. For an object with no own
  key \<^verbatim>\<open>toString\<close> the filter is satisfied exactly when its value is
  \<^verbatim>\<open>[object Object]\<close>; for an object with such a key, and for an array that holds one,
  the conversion throws a TypeError. The TypeError leaves \<^verbatim>\<open>matchesAllFilters\<close>, and
  \<^verbatim>\<open>filterLines\<close> swallows it and drops the line: its result is that of the lines
  before followed by that of the lines after.
\<close>

theorem containers_are_compared_by_String:
  "(getNestedValue json (filter_key f) = Found (JArr xs) \<longrightarrow>
      ToString (JArr xs) = join_comma (map (\<lambda>x. if x = JNull then Inr [] else ToString x) xs)
    \<and> matchesAllFilters json [f] =
        (case ToString (JArr xs) of Inr s \<Rightarrow> Inr (s = filter_value f) | Inl e \<Rightarrow> Inl e))
   \<and> (getNestedValue json (filter_key f) = Found (JObj ps) \<longrightarrow>
      matchesAllFilters json [f] =
        (if has_own ps (str ''toString'') then Inl TypeError
         else Inr (filter_value f = str ''[object Object]'')))
   \<and> (getNestedValue json (filter_key f) = Found (JArr xs) \<and> JObj ps \<in> set xs
      \<and> has_own ps (str ''toString'') \<longrightarrow>
      ToString (JArr xs) = Inl TypeError \<and> matchesAllFilters json [f] = Inl TypeError)
   \<and> (JSON_parse (trim line) = Some json \<and> matchesAllFilters json filters = Inl TypeError \<longrightarrow>
      filterLines (before @ line # after) filters
        = filterLines before filters @ filterLines after filters)"
proof -
  have array: "getNestedValue json (filter_key f) = Found (JArr xs) \<longrightarrow>
      ToString (JArr xs) = join_comma (map (\<lambda>x. if x = JNull then Inr [] else ToString x) xs)
    \<and> matchesAllFilters json [f] =
        (case ToString (JArr xs) of Inr s \<Rightarrow> Inr (s = filter_value f) | Inl e \<Rightarrow> Inl e)"
    by (auto split: sum.splits)
  have object: "getNestedValue json (filter_key f) = Found (JObj ps) \<longrightarrow>
      matchesAllFilters json [f] =
        (if has_own ps (str ''toString'') then Inl TypeError
         else Inr (filter_value f = str ''[object Object]''))"
    by auto
  have holding: "getNestedValue json (filter_key f) = Found (JArr xs) \<and> JObj ps \<in> set xs
      \<and> has_own ps (str ''toString'') \<longrightarrow>
      ToString (JArr xs) = Inl TypeError \<and> matchesAllFilters json [f] = Inl TypeError"
  proof
    assume a: "getNestedValue json (filter_key f) = Found (JArr xs) \<and> JObj ps \<in> set xs
      \<and> has_own ps (str ''toString'')"
    then have throws: "ToString (JArr xs) = Inl TypeError"
      using array_holding_toString_throws by blast
    from a have "matchesAllFilters json [f] =
        (case ToString (JArr xs) of Inr s \<Rightarrow> Inr (s = filter_value f) | Inl e \<Rightarrow> Inl e)"
      using array by blast
    with throws show "ToString (JArr xs) = Inl TypeError \<and> matchesAllFilters json [f] = Inl TypeError"
      by simp
  qed
  have dropped: "JSON_parse (trim line) = Some json \<and> matchesAllFilters json filters = Inl TypeError \<longrightarrow>
      filterLines (before @ line # after) filters
        = filterLines before filters @ filterLines after filters"
  proof
    assume "JSON_parse (trim line) = Some json \<and> matchesAllFilters json filters = Inl TypeError"
    then have "filter_line filters line = None"
      using throwing_line_is_dropped by blast
    then have "\<not> passes filters (trim line)"
      by (simp add: filter_line_cases split: if_splits)
    then show "filterLines (before @ line # after) filters
        = filterLines before filters @ filterLines after filters"
      by (simp add: filterLines_def filterLines_loop_result)
  qed
  from array object holding dropped show ?thesis
    by blast
qed

text \<open>
  An array of two numbers under the filter \<^verbatim>\<open>a = 1,2\<close>; a plain object under the
  filter \<^verbatim>\<open>a = [object Object]\<close>; an array that holds an object with the key
  \<^verbatim>\<open>toString\<close>; and three lines of which the second is that array, and is dropped. An array
  with the number \<^verbatim>\<open>9007199254740993\<close> prints the double that the number is read as.
\<close>

theorem containers_are_compared_by_String_witness:
  "getNestedValue (JObj [(str ''a'', JArr [JNum (nat_number 1), JNum (nat_number 2)])]) (str ''a'')
     = Found (JArr [JNum (nat_number 1), JNum (nat_number 2)])
   \<and> ToString (JArr [JNum (nat_number 1), JNum (nat_number 2)]) = Inr (str ''1,2'')
   \<and> matchesAllFilters (JObj [(str ''a'', JArr [JNum (nat_number 1), JNum (nat_number 2)])])
       [\<lparr>filter_key = str ''a'', filter_value = str ''1,2''\<rparr>] = Inr True
   \<and> getNestedValue (JObj [(str ''a'', JObj [(str ''b'', JNull)])]) (str ''a'')
     = Found (JObj [(str ''b'', JNull)])
   \<and> matchesAllFilters (JObj [(str ''a'', JObj [(str ''b'', JNull)])])
       [\<lparr>filter_key = str ''a'', filter_value = str ''[object Object]''\<rparr>] = Inr True
   \<and> JSON_parse (trim (str ''{\"a\":[1,{\"toString\":2}]}''))
     = Some (JObj [(str ''a'', JArr [JNum (nat_number 1), JObj [(str ''toString'', JNum (nat_number 2))]])])
   \<and> getNestedValue
       (JObj [(str ''a'', JArr [JNum (nat_number 1), JObj [(str ''toString'', JNum (nat_number 2))]])])
       (str ''a'')
     = Found (JArr [JNum (nat_number 1), JObj [(str ''toString'', JNum (nat_number 2))]])
   \<and> matchesAllFilters
       (JObj [(str ''a'', JArr [JNum (nat_number 1), JObj [(str ''toString'', JNum (nat_number 2))]])])
       [\<lparr>filter_key = str ''a'', filter_value = str ''1,2''\<rparr>] = Inl TypeError
   \<and> filterLines
       [str ''{\"a\":[1,2]}'', str ''{\"a\":[1,{\"toString\":2}]}'', str ''{\"a\":\"1,2\"}'']
       [\<lparr>filter_key = str ''a'', filter_value = str ''1,2''\<rparr>]
     = [str ''{\"a\":[1,2]}'', str ''{\"a\":\"1,2\"}'']
   \<and> JSON_parse (str ''{\"a\":[9007199254740993]}'')
     = Some (JObj [(str ''a'',
         JArr [JNum (Number False [9, 0, 0, 7, 1, 9, 9, 2, 5, 4, 7, 4, 0, 9, 9, 2] 16)])])
   \<and> matchesAllFilters
       (JObj [(str ''a'',
         JArr [JNum (Number False [9, 0, 0, 7, 1, 9, 9, 2, 5, 4, 7, 4, 0, 9, 9, 2] 16)])])
       [\<lparr>filter_key = str ''a'', filter_value = str ''9007199254740992''\<rparr>] = Inr True"
proof -
  let ?xs = "[JNum (nat_number 1), JNum (nat_number 2)]"
  let ?ps = "[(str ''toString'', JNum (nat_number 2))]"
  let ?ys = "[JNum (nat_number 1), JObj ?ps]"
  let ?f = "\<lparr>filter_key = str ''a'', filter_value = str ''1,2''\<rparr>"
  let ?g = "\<lparr>filter_key = str ''a'', filter_value = str ''[object Object]''\<rparr>"
  let ?line = "str ''{\"a\":[1,{\"toString\":2}]}''"
  have array: "getNestedValue (JObj [(str ''a'', JArr ?xs)]) (filter_key ?f) = Found (JArr ?xs)"
    by (simp add: object_eval filter_eval)
  have joined: "ToString (JArr ?xs) = Inr (str ''1,2'')"
    by (simp add: object_eval)
  have object: "getNestedValue (JObj [(str ''a'', JObj [(str ''b'', JNull)])]) (filter_key ?g)
      = Found (JObj [(str ''b'', JNull)])"
    by (simp add: object_eval filter_eval)
  have own: "\<not> has_own [(str ''b'', JNull)] (str ''toString'')"
    by (simp add: object_eval)
  have parsed: "JSON_parse (trim ?line) = Some (JObj [(str ''a'', JArr ?ys)])"
    by (simp add: object_eval string_eval parse_eval)
  have holding: "getNestedValue (JObj [(str ''a'', JArr ?ys)]) (filter_key ?f) = Found (JArr ?ys)"
    by (simp add: object_eval filter_eval)
  have held: "JObj ?ps \<in> set ?ys \<and> has_own ?ps (str ''toString'')"
    by (simp add: object_eval)
  have before: "filterLines [str ''{\"a\":[1,2]}''] [?f] = [str ''{\"a\":[1,2]}'']"
    by (simp add: object_eval string_eval parse_eval filter_eval)
  have after: "filterLines [str ''{\"a\":\"1,2\"}''] [?f] = [str ''{\"a\":\"1,2\"}'']"
    by (simp add: object_eval string_eval parse_eval filter_eval)
  from containers_are_compared_by_String [of "JObj [(str ''a'', JArr ?xs)]" ?f ?xs] array joined
  have first: "matchesAllFilters (JObj [(str ''a'', JArr ?xs)]) [?f] = Inr True"
    by simp
  from containers_are_compared_by_String
    [of "JObj [(str ''a'', JObj [(str ''b'', JNull)])]" ?g _ "[(str ''b'', JNull)]"] object own
  have second: "matchesAllFilters (JObj [(str ''a'', JObj [(str ''b'', JNull)])]) [?g] = Inr True"
    by simp
  from containers_are_compared_by_String [of "JObj [(str ''a'', JArr ?ys)]" ?f ?ys ?ps] holding held
  have third: "matchesAllFilters (JObj [(str ''a'', JArr ?ys)]) [?f] = Inl TypeError"
    by blast
  from containers_are_compared_by_String
    [of "JObj [(str ''a'', JArr ?ys)]" _ _ _ ?line "[?f]" "[str ''{\"a\":[1,2]}'']"
      "[str ''{\"a\":\"1,2\"}'']"] parsed third
  have "filterLines [str ''{\"a\":[1,2]}'', ?line, str ''{\"a\":\"1,2\"}''] [?f]
      = filterLines [str ''{\"a\":[1,2]}''] [?f] @ filterLines [str ''{\"a\":\"1,2\"}''] [?f]"
    by simp
  with before after
  have fourth: "filterLines [str ''{\"a\":[1,2]}'', ?line, str ''{\"a\":\"1,2\"}''] [?f]
      = [str ''{\"a\":[1,2]}'', str ''{\"a\":\"1,2\"}'']"
    by simp
  have rounded: "JSON_parse (str ''{\"a\":[9007199254740993]}'')
      = Some (JObj [(str ''a'',
          JArr [JNum (Number False [9, 0, 0, 7, 1, 9, 9, 2, 5, 4, 7, 4, 0, 9, 9, 2] 16)])])"
    by (simp add: object_eval string_eval parse_eval)
  have printed: "matchesAllFilters
      (JObj [(str ''a'',
        JArr [JNum (Number False [9, 0, 0, 7, 1, 9, 9, 2, 5, 4, 7, 4, 0, 9, 9, 2] 16)])])
      [\<lparr>filter_key = str ''a'', filter_value = str ''9007199254740992''\<rparr>] = Inr True"
    by (simp add: object_eval filter_eval)
  from array joined first object second parsed holding third fourth rounded printed
  show ?thesis
    by simp
qed

end
